theory Spec2Isabelle
  imports Complex_Main
begin

section \<open>The counter store (schema.sql)\<close>

text \<open>
  \<^verbatim>\<open>datetime('now')\<close> has a resolution of one second and its text form orders as the
  instants do, so a timestamp is the number of seconds since a fixed origin.
\<close>

type_synonym timestamp = int

text \<open>A row of \<^verbatim>\<open>click_batches\<close>: count, ip_hash, country, created_at.\<close>

record click_batch =
  b_count :: int
  b_ip_hash :: string
  b_country :: string
  b_created_at :: timestamp

text \<open>
  The three tables. \<^verbatim>\<open>counter\<close> holds the single row \<^verbatim>\<open>id = 1\<close> that schema.sql
  inserts and that no statement deletes; \<open>counter_total\<close> is the integer value of its
  column \<^verbatim>\<open>total\<close>.
  \<^verbatim>\<open>click_batches\<close> is kept in insertion order. \<^verbatim>\<open>turnstile_verified\<close> has
  \<^verbatim>\<open>ip_hash\<close> as primary key, so it is a map from ip_hash to verified_at.
\<close>

record db =
  counter_total :: int
  click_batches :: "click_batch list"
  turnstile_verified :: "string \<rightharpoonup> timestamp"

section \<open>Requests and responses of the worker (worker/src/index.ts)\<close>

text \<open>
  A field of the parsed JSON body: missing (\<^verbatim>\<open>undefined\<close>), a number (a finite double,
  given by its exact value), a string, or anything else.
\<close>

datatype jsval = JUndefined | JNumber rat | JString string | JOther

text \<open>
  What \<^verbatim>\<open>request.json()\<close> gives: a rejection when the body is not JSON, the value
  \<^verbatim>\<open>null\<close> (reading a property of it throws), or a value whose properties
  \<^verbatim>\<open>count\<close> and \<^verbatim>\<open>token\<close> can be read.
\<close>

datatype body = InvalidJSON | JNull | JObject jsval jsval

record request =
  req_body :: body
  cf_connecting_ip :: "string option"
  cf_ipcountry :: "string option"

datatype payload = ErrorJSON string | OkJSON int | TotalJSON int

text \<open>A response with its status, or an exception that leaves the handler uncaught.\<close>

datatype response = Response nat payload | Uncaught

fun status :: "response \<Rightarrow> nat option" where
  "status (Response st p) = Some st"
| "status Uncaught = None"

text \<open>The reply of the siteverify service to one call of \<^verbatim>\<open>fetch\<close>.\<close>

datatype fetch_outcome = TransportError | MalformedReply | Reply bool

text \<open>
  What the worker takes from its platform: the SHA-256 digest in hexadecimal behind
  \<^verbatim>\<open>hashIP\<close> and the siteverify service, asked with (secret, response, remoteip).
\<close>

record platform =
  hashIP :: "string \<Rightarrow> string"
  siteverify :: "string \<times> string \<times> string \<Rightarrow> fetch_outcome"

text \<open>How a call of an async function ends: with a value, or with an exception.\<close>

datatype 'a completion = Returned 'a | Thrown

text \<open>
  \<^verbatim>\<open>verifyTurnstile\<close> (lines 32-51): the call and the parsing of its reply are inside
  \<^verbatim>\<open>try\<close>, and \<^verbatim>\<open>catch\<close> returns false.
\<close>

definition verifyTurnstile ::
    "platform \<Rightarrow> string \<Rightarrow> string \<Rightarrow> string \<Rightarrow> bool completion" where
  "verifyTurnstile pf token secret ip =
     (case siteverify pf (secret, token, ip) of
        TransportError \<Rightarrow> Returned False
      | MalformedReply \<Rightarrow> Returned False
      | Reply success \<Rightarrow> Returned success)"

text \<open>
  The count check of \<^verbatim>\<open>handleClick\<close>:
  \<^verbatim>\<open>typeof count !== "number" || count < 1 || count > 200 || !Number.isInteger(count)\<close>
  rejects.
\<close>

fun valid_count :: "jsval \<Rightarrow> bool" where
  "valid_count (JNumber r) = (\<not> (r < 1 \<or> r > 200 \<or> of_int \<lfloor>r\<rfloor> \<noteq> r))"
| "valid_count _ = False"

fun count_value :: "jsval \<Rightarrow> int" where
  "count_value (JNumber r) = \<lfloor>r\<rfloor>"
| "count_value _ = 0"

text \<open>\<^verbatim>\<open>typeof token !== "string" || !token\<close> rejects.\<close>

fun usable_token :: "jsval \<Rightarrow> string option" where
  "usable_token (JString s) = (if s = [] then None else Some s)"
| "usable_token _ = None"

definition isLocal :: "string \<Rightarrow> bool" where
  "isLocal ip = (ip = ''127.0.0.1'' \<or> ip = ''::1'' \<or> ip = ''unknown'')"

subsection \<open>The SQL statements\<close>

text \<open>
  \<^verbatim>\<open>SELECT 1 FROM turnstile_verified WHERE ip_hash = ? AND verified_at >
  datetime('now', '-60 seconds')\<close>
\<close>

definition recentVerify :: "timestamp \<Rightarrow> string \<Rightarrow> db \<Rightarrow> bool" where
  "recentVerify now h d =
     (case turnstile_verified d h of None \<Rightarrow> False | Some verified_at \<Rightarrow> verified_at > now - 60)"

text \<open>
  \<^verbatim>\<open>INSERT OR REPLACE INTO turnstile_verified (ip_hash, verified_at) VALUES (?,
  datetime('now'))\<close>
\<close>

definition mark_verified :: "timestamp \<Rightarrow> string \<Rightarrow> db \<Rightarrow> db" where
  "mark_verified now h d = d\<lparr>turnstile_verified := (turnstile_verified d)(h \<mapsto> now)\<rparr>"

text \<open>
  \<^verbatim>\<open>SELECT COALESCE(SUM(count), 0) FROM click_batches WHERE ip_hash = ? AND created_at >
  datetime('now', '-5 seconds')\<close>
\<close>

definition window_sum :: "click_batch list \<Rightarrow> string \<Rightarrow> timestamp \<Rightarrow> int" where
  "window_sum rows h now =
     sum_list (map b_count (filter (\<lambda>r. b_ip_hash r = h \<and> b_created_at r > now - 5) rows))"

text \<open>
  The conditional insert (lines 149-153): one statement that appends the row, with
  \<^verbatim>\<open>created_at\<close> defaulting to \<^verbatim>\<open>datetime('now')\<close>, where the window sum plus the
  count is at most 200. The second component is \<^verbatim>\<open>meta.changes\<close>.
\<close>

definition insert_click_batch ::
    "timestamp \<Rightarrow> int \<Rightarrow> string \<Rightarrow> string \<Rightarrow> db \<Rightarrow> db \<times> nat" where
  "insert_click_batch now c h ctry d =
     (if window_sum (click_batches d) h now + c \<le> 200
      then (d\<lparr>click_batches := click_batches d @
                [\<lparr>b_count = c, b_ip_hash = h, b_country = ctry, b_created_at = now\<rparr>]\<rparr>, 1)
      else (d, 0))"

text \<open>
  A JavaScript number is a double: 53 bits of significand, so the doubles from
  \<open>2 ^ 53 * u / 2\<close> up to \<open>2 ^ 53 * u\<close> are \<open>u\<close> apart. \<open>ulp n\<close> is that spacing
  at the magnitude \<open>n\<close>, and \<open>to_double x\<close> the double nearest to the integer \<open>x\<close>,
  a tie going to the even significand. (The magnitudes here stay far below the largest
  double.)
\<close>

function ulp :: "nat \<Rightarrow> nat" where
  "ulp n = (if n < 2 ^ 53 then 1 else 2 * ulp (n div 2))"
  by pat_completeness auto
termination
  by (relation "measure id") auto

declare ulp.simps [simp del]

definition to_double :: "int \<Rightarrow> int" where
  "to_double x =
     (let u = int (ulp (nat \<bar>x\<bar>)); q = x div u; r = x mod u
      in if 2 * r < u then q * u
         else if u < 2 * r then (q + 1) * u
         else if even q then q * u else (q + 1) * u)"

text \<open>
  \<^verbatim>\<open>total + ?\<close> with the count bound as a JavaScript number: the sum of a REAL is
  computed in doubles, from the total as a double.
\<close>

definition sum_as_double :: "int \<Rightarrow> int \<Rightarrow> int" where
  "sum_as_double t c = to_double (to_double t + c)"

text \<open>
  The batch \<^verbatim>\<open>UPDATE counter SET total = total + ? WHERE id = 1\<close>,
  \<^verbatim>\<open>SELECT total FROM counter WHERE id = 1\<close>. The column keeps the value of the sum;
  the second component is the total read, as the JavaScript number that
  \<^verbatim>\<open>results[1].results[0].total\<close> is.
\<close>

definition increment_counter :: "int \<Rightarrow> db \<Rightarrow> db \<times> int" where
  "increment_counter c d =
     (d\<lparr>counter_total := sum_as_double (counter_total d) c\<rparr>,
      to_double (sum_as_double (counter_total d) c))"

subsection \<open>handleClick (lines 89-186)\<close>

text \<open>
  The handler as a function of the database: the tables before, the request, and the
  tables and the response after. The CORS headers of the responses and the deletion of the
  edge-cache entries after the update (lines 172-181) touch no table and are left out.

  The three readings of \<^verbatim>\<open>datetime('now')\<close> that one request makes, in program
  order: in the recent-verification query, in the verification insert, in the conditional
  insert.
\<close>

record clock =
  at_recent :: timestamp
  at_mark :: timestamp
  at_insert :: timestamp

definition client_ip :: "request \<Rightarrow> string" where
  "client_ip req = (case cf_connecting_ip req of None \<Rightarrow> ''unknown'' | Some a \<Rightarrow> a)"

definition client_country :: "request \<Rightarrow> string" where
  "client_country req = (case cf_ipcountry req of None \<Rightarrow> ''unknown'' | Some a \<Rightarrow> a)"

text \<open>
  The Turnstile block (lines 115-144): the response that ends the request, or the database
  after it.
\<close>

definition turnstile_gate ::
    "platform \<Rightarrow> string \<Rightarrow> clock \<Rightarrow> jsval \<Rightarrow> string \<Rightarrow> db \<Rightarrow> response + db" where
  "turnstile_gate pf secret clk token ip d =
     (if \<not> isLocal ip then
        if \<not> recentVerify (at_recent clk) (hashIP pf ip) d then
          (case usable_token token of
             None \<Rightarrow> Inl (Response 400 (ErrorJSON ''missing turnstile token''))
           | Some tk \<Rightarrow>
               (case verifyTurnstile pf tk secret ip of
                  Thrown \<Rightarrow> Inl Uncaught
                | Returned turnstileOk \<Rightarrow>
                    if \<not> turnstileOk
                    then Inl (Response 403 (ErrorJSON ''bot detected''))
                    else Inr (mark_verified (at_mark clk) (hashIP pf ip) d)))
        else Inr d
      else Inr d)"

definition handleClick ::
    "platform \<Rightarrow> string \<Rightarrow> clock \<Rightarrow> db \<Rightarrow> request \<Rightarrow> db \<times> response" where
  "handleClick pf secret clk d req =
     (case req_body req of
        InvalidJSON \<Rightarrow> (d, Response 400 (ErrorJSON ''invalid JSON''))
      | JNull \<Rightarrow> (d, Uncaught)
      | JObject cnt token \<Rightarrow>
          if \<not> valid_count cnt
          then (d, Response 400 (ErrorJSON ''count must be integer 1-200''))
          else
            (case turnstile_gate pf secret clk token (client_ip req) d of
               Inl resp \<Rightarrow> (d, resp)
             | Inr d1 \<Rightarrow>
                 (case insert_click_batch (at_insert clk) (count_value cnt)
                         (hashIP pf (client_ip req)) (client_country req) d1 of
                    (d2, changes) \<Rightarrow>
                      if changes = 0
                      then (d2, Response 429 (ErrorJSON ''rate limited''))
                      else
                        (case increment_counter (count_value cnt) d2 of
                           (d3, newTotal) \<Rightarrow> (d3, Response 200 (OkJSON newTotal))))))"

text \<open>
  When the Turnstile block lets a request through: the address is exempt, or it was
  verified in the last 60 seconds, or its token passes siteverify.
\<close>

definition identity_verified :: "platform \<Rightarrow> string \<Rightarrow> clock \<Rightarrow> db \<Rightarrow> request \<Rightarrow> jsval \<Rightarrow> bool" where
  "identity_verified pf secret clk d req token =
     (isLocal (client_ip req) \<or> recentVerify (at_recent clk) (hashIP pf (client_ip req)) d \<or>
      (case usable_token token of
         None \<Rightarrow> False
       | Some tk \<Rightarrow> verifyTurnstile pf tk secret (client_ip req) = Returned True))"

subsection \<open>handleCount (lines 53-87)\<close>

text \<open>
  \<^verbatim>\<open>handleCount\<close> returns what the edge cache holds for the origin when it holds
  something, and otherwise reads the total; it writes no table. The argument
  \<open>cached\<close> is the result of \<^verbatim>\<open>cache.match\<close> (nothing where the cache misses or is not
  available).
\<close>

definition handleCount :: "response option \<Rightarrow> db \<Rightarrow> response" where
  "handleCount cached d =
     (case cached of
        Some r \<Rightarrow> r
      | None \<Rightarrow> Response 200 (TotalJSON (to_double (counter_total d))))"

text \<open>The two operations of the worker on the store, and a run of them in sequence.\<close>

datatype operation = Click clock request | Count "response option"

fun perform :: "platform \<Rightarrow> string \<Rightarrow> db \<Rightarrow> operation \<Rightarrow> db \<times> response" where
  "perform pf secret d (Click clk req) = handleClick pf secret clk d req"
| "perform pf secret d (Count cached) = (d, handleCount cached d)"

fun perform_all :: "platform \<Rightarrow> string \<Rightarrow> db \<Rightarrow> operation list \<Rightarrow> db \<times> response list" where
  "perform_all pf secret d [] = (d, [])"
| "perform_all pf secret d (op # ops) =
     (case perform pf secret d op of
        (d1, r) \<Rightarrow> (case perform_all pf secret d1 ops of (d2, rs) \<Rightarrow> (d2, r # rs)))"

text \<open>
  The count that an operation adds when its response is the success response of
  \<^verbatim>\<open>handleClick\<close>, and the sum of these over a run.
\<close>

fun accepted_count :: "operation \<Rightarrow> response \<Rightarrow> int" where
  "accepted_count (Click clk req) (Response st (OkJSON t)) =
     (case req_body req of JObject cnt token \<Rightarrow> count_value cnt | _ \<Rightarrow> 0)"
| "accepted_count _ _ = 0"

fun accepted_sum :: "operation list \<Rightarrow> response list \<Rightarrow> int" where
  "accepted_sum (op # ops) (r # rs) = accepted_count op r + accepted_sum ops rs"
| "accepted_sum _ _ = 0"

fun totals_along :: "platform \<Rightarrow> string \<Rightarrow> db \<Rightarrow> operation list \<Rightarrow> int list" where
  "totals_along pf secret d [] = [counter_total d]"
| "totals_along pf secret d (op # ops) =
     counter_total d # totals_along pf secret (fst (perform pf secret d op)) ops"

subsection \<open>Requests in flight\<close>

text \<open>
  \<^verbatim>\<open>handleClick\<close> gives up control at each \<^verbatim>\<open>await\<close>. Between two of them another
  request may run, so a request in flight is the statement it waits for, with the local
  values it still needs: the count, the token, the address, the country.
\<close>

datatype task =
    AtRecent int jsval string string
  | AtSiteverify int string string string
  | AtMark int string string
  | AtInsert int string string
  | AtIncrement int
  | Finished response

text \<open>The code before the first statement: parsing, the count check, the exemption.\<close>

definition start_task :: "request \<Rightarrow> task" where
  "start_task req =
     (case req_body req of
        InvalidJSON \<Rightarrow> Finished (Response 400 (ErrorJSON ''invalid JSON''))
      | JNull \<Rightarrow> Finished Uncaught
      | JObject cnt token \<Rightarrow>
          if \<not> valid_count cnt
          then Finished (Response 400 (ErrorJSON ''count must be integer 1-200''))
          else if \<not> isLocal (client_ip req)
          then AtRecent (count_value cnt) token (client_ip req) (client_country req)
          else AtInsert (count_value cnt) (client_ip req) (client_country req))"

text \<open>
  One statement of a request, run at the clock reading \<open>now\<close>, and the code after it up
  to the next \<^verbatim>\<open>await\<close>.
\<close>

fun advance :: "platform \<Rightarrow> string \<Rightarrow> timestamp \<Rightarrow> task \<Rightarrow> db \<Rightarrow> task \<times> db" where
  "advance pf secret now (AtRecent c token ip ctry) d =
     (if \<not> recentVerify now (hashIP pf ip) d then
        (case usable_token token of
           None \<Rightarrow> (Finished (Response 400 (ErrorJSON ''missing turnstile token'')), d)
         | Some tk \<Rightarrow> (AtSiteverify c tk ip ctry, d))
      else (AtInsert c ip ctry, d))"
| "advance pf secret now (AtSiteverify c tk ip ctry) d =
     (case verifyTurnstile pf tk secret ip of
        Thrown \<Rightarrow> (Finished Uncaught, d)
      | Returned turnstileOk \<Rightarrow>
          if \<not> turnstileOk
          then (Finished (Response 403 (ErrorJSON ''bot detected'')), d)
          else (AtMark c ip ctry, d))"
| "advance pf secret now (AtMark c ip ctry) d =
     (AtInsert c ip ctry, mark_verified now (hashIP pf ip) d)"
| "advance pf secret now (AtInsert c ip ctry) d =
     (case insert_click_batch now c (hashIP pf ip) ctry d of
        (d2, changes) \<Rightarrow>
          if changes = 0
          then (Finished (Response 429 (ErrorJSON ''rate limited'')), d2)
          else (AtIncrement c, d2))"
| "advance pf secret now (AtIncrement c) d =
     (case increment_counter c d of
        (d3, newTotal) \<Rightarrow> (Finished (Response 200 (OkJSON newTotal)), d3))"
| "advance pf secret now (Finished r) d = (Finished r, d)"

text \<open>
  An interleaving is a list of pairs: which request runs its next statement, and the clock
  reading then.
\<close>

fun interleave ::
    "platform \<Rightarrow> string \<Rightarrow> (nat \<times> timestamp) list \<Rightarrow> task list \<times> db \<Rightarrow> task list \<times> db" where
  "interleave pf secret [] s = s"
| "interleave pf secret ((i, now) # es) (ts, d) =
     (if i < length ts
      then (case advance pf secret now (ts ! i) d of
              (t1, d1) \<Rightarrow> interleave pf secret es (ts[i := t1], d1))
      else interleave pf secret es (ts, d))"

text \<open>The clock reading that a request alone takes at its next statement.\<close>

fun reading :: "clock \<Rightarrow> task \<Rightarrow> timestamp" where
  "reading clk (AtRecent c token ip ctry) = at_recent clk"
| "reading clk (AtMark c ip ctry) = at_mark clk"
| "reading clk _ = at_insert clk"

definition advance_alone :: "platform \<Rightarrow> string \<Rightarrow> clock \<Rightarrow> task \<times> db \<Rightarrow> task \<times> db" where
  "advance_alone pf secret clk s = advance pf secret (reading clk (fst s)) (fst s) (snd s)"

text \<open>
  The rows of one identity whose \<^verbatim>\<open>created_at\<close> lies in the five seconds that end at
  \<open>t\<close>, and the sum of their counts. At the time of the conditional insert no row is
  later than \<^verbatim>\<open>datetime('now')\<close>, and this is the sum that the statement computes.
\<close>

definition window_total :: "click_batch list \<Rightarrow> string \<Rightarrow> timestamp \<Rightarrow> int" where
  "window_total rows h t =
     sum_list (map b_count
       (filter (\<lambda>r. b_ip_hash r = h \<and> t - 5 < b_created_at r \<and> b_created_at r \<le> t) rows))"

text \<open>
  A ledger as the worker leaves it by the time \<open>now\<close>: counts are positive (the CHECK of
  the column), no row is later than \<open>now\<close>, and the counts of an identity in the five
  seconds up to any of its rows sum to at most 200.
\<close>

definition ledger_ok :: "timestamp \<Rightarrow> click_batch list \<Rightarrow> bool" where
  "ledger_ok now rows =
     list_all (\<lambda>r. 0 < b_count r \<and> b_created_at r \<le> now \<and>
                   window_total rows (b_ip_hash r) (b_created_at r) \<le> 200) rows"

fun nondecreasing_from :: "timestamp \<Rightarrow> timestamp list \<Rightarrow> bool" where
  "nondecreasing_from t [] = True"
| "nondecreasing_from t (u # us) = (t \<le> u \<and> nondecreasing_from u us)"

section \<open>The earlier worker (worker/src/index.ts, lines 208-382)\<close>

text \<open>
  The file carries a second copy of the worker, the one PLAN.md describes: siteverify is
  called with no \<^verbatim>\<open>try\<close>, no verification is remembered, and the rate limit counts
  batches (ten in five seconds) in a query of its own before the insert.
\<close>

text \<open>\<^verbatim>\<open>verifyTurnstile\<close> (lines 233-248): an exception of the call leaves the function.\<close>

definition verifyTurnstile_plan ::
    "platform \<Rightarrow> string \<Rightarrow> string \<Rightarrow> string \<Rightarrow> bool completion" where
  "verifyTurnstile_plan pf token secret ip =
     (case siteverify pf (secret, token, ip) of
        TransportError \<Rightarrow> Thrown
      | MalformedReply \<Rightarrow> Thrown
      | Reply success \<Rightarrow> Returned success)"

text \<open>
  \<^verbatim>\<open>SELECT COUNT(*) as cnt FROM click_batches WHERE ip_hash = ? AND created_at >
  datetime('now', '-5 seconds')\<close>
\<close>

definition rateCheck_plan :: "timestamp \<Rightarrow> string \<Rightarrow> db \<Rightarrow> nat" where
  "rateCheck_plan now h d =
     length (filter (\<lambda>r. b_ip_hash r = h \<and> b_created_at r > now - 5) (click_batches d))"

text \<open>The batch of lines 337-345: the insert, the update and the read of the total.\<close>

definition insert_and_increment_plan ::
    "timestamp \<Rightarrow> int \<Rightarrow> string \<Rightarrow> string \<Rightarrow> db \<Rightarrow> db \<times> int" where
  "insert_and_increment_plan now c h ctry d =
     (d\<lparr>counter_total := sum_as_double (counter_total d) c,
        click_batches := click_batches d @
          [\<lparr>b_count = c, b_ip_hash = h, b_country = ctry, b_created_at = now\<rparr>]\<rparr>,
      to_double (sum_as_double (counter_total d) c))"

text \<open>\<^verbatim>\<open>handleClick\<close> (lines 285-361), with the clock readings of its two statements.\<close>

definition handleClick_plan ::
    "platform \<Rightarrow> string \<Rightarrow> timestamp \<Rightarrow> timestamp \<Rightarrow> db \<Rightarrow> request \<Rightarrow> db \<times> response" where
  "handleClick_plan pf secret at_check at_batch d req =
     (case req_body req of
        InvalidJSON \<Rightarrow> (d, Uncaught)
      | JNull \<Rightarrow> (d, Uncaught)
      | JObject cnt token \<Rightarrow>
          if \<not> valid_count cnt
          then (d, Response 400 (ErrorJSON ''count must be integer 1-200''))
          else
            (case (if \<not> isLocal (client_ip req) then
                     (case usable_token token of
                        None \<Rightarrow> Some (Response 400 (ErrorJSON ''missing turnstile token''))
                      | Some tk \<Rightarrow>
                          (case verifyTurnstile_plan pf tk secret (client_ip req) of
                             Thrown \<Rightarrow> Some Uncaught
                           | Returned turnstileOk \<Rightarrow>
                               if \<not> turnstileOk
                               then Some (Response 403 (ErrorJSON ''bot detected''))
                               else None))
                   else None) of
               Some resp \<Rightarrow> (d, resp)
             | None \<Rightarrow>
                 if rateCheck_plan at_check (hashIP pf (client_ip req)) d \<ge> 10
                 then (d, Response 429 (ErrorJSON ''rate limited''))
                 else
                   (case insert_and_increment_plan at_batch (count_value cnt)
                           (hashIP pf (client_ip req)) (client_country req) d of
                      (d1, newTotal) \<Rightarrow> (d1, Response 200 (OkJSON newTotal)))))"

section \<open>The animated count (useAnimatedCount)\<close>

text \<open>
  The hook as App.tsx uses it (its \<^verbatim>\<open>displayCount\<close> may be \<^verbatim>\<open>null\<close>), the copy
  at lines 383-485 of worker/src/index.ts: the state
  \<^verbatim>\<open>displayCount\<close> and the seven refs. Counts are integers; \<^verbatim>\<open>performance.now()\<close> and
  the timestamp of a frame are milliseconds, with fractions. \<^verbatim>\<open>rafRef\<close> holds the
  identifier of the requested frame or 0: here, whether a frame is requested. The quotient
  and the product of \<^verbatim>\<open>tick\<close> are computed exactly, where the doubles of the source
  round. The hook is used with a positive \<^verbatim>\<open>duration\<close> (2000 by default and in App.tsx).
\<close>

record anim =
  displayCount :: "int option"
  targetRef :: int
  displayRef :: int
  initializedRef :: bool
  rafRef :: bool
  animStartRef :: rat
  animStartDisplayRef :: int
  animTargetRef :: int

definition anim_init :: anim where
  "anim_init = \<lparr>displayCount = None, targetRef = 0, displayRef = 0, initializedRef = False,
                 rafRef = False, animStartRef = 0, animStartDisplayRef = 0, animTargetRef = 0\<rparr>"

text \<open>\<^verbatim>\<open>Math.round\<close>: the nearest integer, a half going up.\<close>

definition js_round :: "rat \<Rightarrow> int" where
  "js_round x = \<lfloor>x + 1 / 2\<rfloor>"

text \<open>
  \<^verbatim>\<open>tick\<close>, the frame callback, at the frame's timestamp \<open>now\<close>; \<open>jitter\<close> is the
  outcome of \<^verbatim>\<open>Math.random() < 0.3\<close>.
\<close>

definition tick :: "rat \<Rightarrow> rat \<Rightarrow> bool \<Rightarrow> anim \<Rightarrow> anim" where
  "tick duration now jitter s =
     (let elapsed = now - animStartRef s;
          totalGap = animTargetRef s - animStartDisplayRef s
      in if totalGap \<le> 0 \<or> elapsed \<ge> duration then
           (if displayRef s < targetRef s
            then s\<lparr>displayRef := targetRef s, displayCount := Some (targetRef s),
                   rafRef := False\<rparr>
            else s\<lparr>rafRef := False\<rparr>)
         else
           (let progress = elapsed / duration;
                targetDisplay = animStartDisplayRef s + js_round (of_int totalGap * progress);
                jitteredTarget = targetDisplay + (if jitter then 1 else 0);
                newDisplay = min jitteredTarget (targetRef s)
            in if newDisplay > displayRef s
               then s\<lparr>displayRef := newDisplay, displayCount := Some newDisplay,
                      rafRef := True\<rparr>
               else s\<lparr>rafRef := True\<rparr>))"

text \<open>\<^verbatim>\<open>startAnimation\<close>, with the reading \<open>now\<close> of \<^verbatim>\<open>performance.now()\<close>.\<close>

definition startAnimation :: "rat \<Rightarrow> int \<Rightarrow> int \<Rightarrow> anim \<Rightarrow> anim" where
  "startAnimation now fromDisplay toTarget s =
     (let s1 = s\<lparr>animStartRef := now, animStartDisplayRef := fromDisplay,
                  animTargetRef := toTarget\<rparr>
      in if \<not> rafRef s1 then s1\<lparr>rafRef := True\<rparr> else s1)"

definition setTarget :: "rat \<Rightarrow> int \<Rightarrow> anim \<Rightarrow> anim" where
  "setTarget now newTarget s =
     (if newTarget \<le> targetRef s then s
      else
        (let s1 = s\<lparr>targetRef := newTarget\<rparr>
         in if \<not> initializedRef s1
            then s1\<lparr>initializedRef := True, displayRef := newTarget,
                    displayCount := Some newTarget\<rparr>
            else startAnimation now (displayRef s1) newTarget s1))"

definition addImmediate :: "int \<Rightarrow> anim \<Rightarrow> anim" where
  "addImmediate n s =
     s\<lparr>targetRef := targetRef s + n,
       displayRef := displayRef s + n,
       displayCount := Some (displayRef s + n),
       initializedRef := True,
       animStartDisplayRef := animStartDisplayRef s + n,
       animTargetRef := targetRef s + n\<rparr>"

text \<open>What happens to the hook: a call of one of its two functions, or a frame.\<close>

datatype anim_event = SetTarget rat int | AddImmediate int | Frame rat bool

fun anim_step :: "rat \<Rightarrow> anim \<Rightarrow> anim_event \<Rightarrow> anim" where
  "anim_step duration s (SetTarget now newTarget) = setTarget now newTarget s"
| "anim_step duration s (AddImmediate n) = addImmediate n s"
| "anim_step duration s (Frame now jitter) = tick duration now jitter s"

text \<open>The states after each event, the first one included: the observation points.\<close>

fun observations :: "rat \<Rightarrow> anim \<Rightarrow> anim_event list \<Rightarrow> anim list" where
  "observations duration s [] = [s]"
| "observations duration s (e # es) = s # observations duration (anim_step duration s e) es"

fun local_adds_nonneg :: "anim_event list \<Rightarrow> bool" where
  "local_adds_nonneg [] = True"
| "local_adds_nonneg (AddImmediate n # es) = (0 \<le> n \<and> local_adds_nonneg es)"
| "local_adds_nonneg (e # es) = local_adds_nonneg es"

text \<open>
  A displayed value is \<^verbatim>\<open>displayCount\<close> once it is a number. Over a list of
  observations: each displayed value is at most the target then, and at most the next one.
\<close>

fun shown_le :: "int option \<Rightarrow> int option \<Rightarrow> bool" where
  "shown_le (Some a) (Some b) = (a \<le> b)"
| "shown_le (Some a) None = False"
| "shown_le None b = True"

fun never_above_target :: "anim list \<Rightarrow> bool" where
  "never_above_target [] = True"
| "never_above_target (s # ss) =
     (shown_le (displayCount s) (Some (targetRef s)) \<and> never_above_target ss)"

fun never_decreasing :: "anim list \<Rightarrow> bool" where
  "never_decreasing (s # s1 # ss) =
     (shown_le (displayCount s) (displayCount s1) \<and> never_decreasing (s1 # ss))"
| "never_decreasing _ = True"

text \<open>
  Events from the state \<open>s\<close> on with no newer target among them: each call of
  \<^verbatim>\<open>setTarget\<close> comes with a target that is not above the current one.
\<close>

fun no_newer_target :: "rat \<Rightarrow> anim \<Rightarrow> anim_event list \<Rightarrow> bool" where
  "no_newer_target duration s [] = True"
| "no_newer_target duration s (SetTarget now newTarget # es) =
     (newTarget \<le> targetRef s \<and> no_newer_target duration (setTarget now newTarget s) es)"
| "no_newer_target duration s (AddImmediate n # es) =
     no_newer_target duration (addImmediate n s) es"
| "no_newer_target duration s (Frame now jitter # es) =
     no_newer_target duration (tick duration now jitter s) es"

fun frames_before :: "rat \<Rightarrow> anim_event list \<Rightarrow> bool" where
  "frames_before deadline [] = True"
| "frames_before deadline (Frame now jitter # es) = (now < deadline \<and> frames_before deadline es)"
| "frames_before deadline (e # es) = frames_before deadline es"

text \<open>The state after a list of events, and the sum of the local additions among them.\<close>

fun after_events :: "rat \<Rightarrow> anim \<Rightarrow> anim_event list \<Rightarrow> anim" where
  "after_events duration s [] = s"
| "after_events duration s (e # es) = after_events duration (anim_step duration s e) es"

fun adds_total :: "anim_event list \<Rightarrow> int" where
  "adds_total [] = 0"
| "adds_total (AddImmediate n # es) = n + adds_total es"
| "adds_total (e # es) = adds_total es"

subsection \<open>The hook with a frame loop that increments at random (unnamed/part_000)\<close>

text \<open>
  Here \<^verbatim>\<open>displayCount\<close> starts at 0, and \<^verbatim>\<open>lastFrameRef\<close> is the time of the last
  frame.
\<close>

record anim_rate =
  r_displayCount :: int
  r_targetRef :: int
  r_displayRef :: int
  r_initializedRef :: bool
  r_rafRef :: bool
  r_lastFrameRef :: rat

definition anim_rate_init :: anim_rate where
  "anim_rate_init = \<lparr>r_displayCount = 0, r_targetRef = 0, r_displayRef = 0,
                      r_initializedRef = False, r_rafRef = False, r_lastFrameRef = 0\<rparr>"

text \<open>\<^verbatim>\<open>tick\<close> (lines 21-48); \<open>rnd\<close> is the value of \<^verbatim>\<open>Math.random()\<close>.\<close>

definition tick_rate :: "rat \<Rightarrow> rat \<Rightarrow> rat \<Rightarrow> anim_rate \<Rightarrow> anim_rate" where
  "tick_rate duration now rnd s =
     (let gap = r_targetRef s - r_displayRef s
      in if gap \<le> 0 then s\<lparr>r_rafRef := False\<rparr>
         else
           (let dt = min (now - r_lastFrameRef s) 100;
                s1 = s\<lparr>r_lastFrameRef := now\<rparr>;
                expected = of_int gap * (dt / duration);
                floor_expected = \<lfloor>expected\<rfloor>;
                frac = expected - of_int floor_expected;
                inc = floor_expected + (if rnd < frac then 1 else 0)
            in if inc > 0
               then s1\<lparr>r_displayRef := min (r_displayRef s1 + inc) (r_targetRef s1),
                       r_displayCount := min (r_displayRef s1 + inc) (r_targetRef s1),
                       r_rafRef := True\<rparr>
               else s1\<lparr>r_rafRef := True\<rparr>))"

definition startAnimation_rate :: "rat \<Rightarrow> anim_rate \<Rightarrow> anim_rate" where
  "startAnimation_rate now s =
     (if r_rafRef s then s else s\<lparr>r_lastFrameRef := now, r_rafRef := True\<rparr>)"

definition setTarget_rate :: "rat \<Rightarrow> int \<Rightarrow> anim_rate \<Rightarrow> anim_rate" where
  "setTarget_rate now newTarget s =
     (if newTarget \<le> r_targetRef s then s
      else
        (let s1 = s\<lparr>r_targetRef := newTarget\<rparr>
         in if \<not> r_initializedRef s1
            then s1\<lparr>r_initializedRef := True, r_displayRef := newTarget,
                    r_displayCount := newTarget\<rparr>
            else
              (let s2 = (if r_displayRef s1 < r_targetRef s1
                         then s1\<lparr>r_displayRef := r_displayRef s1 + 1,
                                 r_displayCount := r_displayRef s1 + 1\<rparr>
                         else s1)
               in startAnimation_rate now s2)))"

definition addImmediate_rate :: "int \<Rightarrow> anim_rate \<Rightarrow> anim_rate" where
  "addImmediate_rate n s =
     s\<lparr>r_targetRef := r_targetRef s + n,
       r_displayRef := r_displayRef s + n,
       r_displayCount := r_displayRef s + n,
       r_initializedRef := True\<rparr>"

text \<open>A run of frames, each with its timestamp and its random number.\<close>

fun frames_rate :: "rat \<Rightarrow> (rat \<times> rat) list \<Rightarrow> anim_rate \<Rightarrow> anim_rate" where
  "frames_rate duration [] s = s"
| "frames_rate duration ((now, rnd) # fs) s = frames_rate duration fs (tick_rate duration now rnd s)"

subsection \<open>The hook with scattered timers (unnamed/part_001)\<close>

text \<open>
  What a timer does when it fires: add one, or add \<open>inc\<close> and stop at the target. A
  pending timer is its delay and its action; \<open>s_timers\<close> are the timers set and neither
  fired nor cleared.
\<close>

datatype timer_action = AddOne | AddCapped int

record anim_scatter =
  s_displayCount :: int
  s_targetRef :: int
  s_displayRef :: int
  s_timers :: "(rat \<times> timer_action) list"
  s_initializedRef :: bool

definition anim_scatter_init :: anim_scatter where
  "anim_scatter_init = \<lparr>s_displayCount = 0, s_targetRef = 0, s_displayRef = 0, s_timers = [],
                         s_initializedRef = False\<rparr>"

text \<open>
  The loop of lines 58-76 for a delta above 500: 200 timers, the last one with what is
  left, those with nothing to add skipped.
\<close>

definition batch_inc :: "int \<Rightarrow> nat \<Rightarrow> int" where
  "batch_inc animationDelta i =
     (let perBatch = \<lceil>(of_int animationDelta :: rat) / 200\<rceil>
      in if i = 200 - 1 then animationDelta - perBatch * int i else perBatch)"

definition batch_timers :: "rat \<Rightarrow> int \<Rightarrow> (rat \<times> timer_action) list" where
  "batch_timers duration animationDelta =
     map (\<lambda>i. ((of_nat i / 200) * duration, AddCapped (batch_inc animationDelta i)))
       (filter (\<lambda>i. \<not> batch_inc animationDelta i \<le> 0) [0..<200])"

text \<open>
  The loops of lines 79-91: one timer for each increment, at the sorted random times;
  \<open>rnd i\<close> is the i-th value of \<^verbatim>\<open>Math.random()\<close>.
\<close>

definition single_timers :: "rat \<Rightarrow> (nat \<Rightarrow> rat) \<Rightarrow> int \<Rightarrow> (rat \<times> timer_action) list" where
  "single_timers duration rnd animationDelta =
     map (\<lambda>t. (t, AddOne)) (sort (map (\<lambda>i. rnd i * duration) [0..<nat animationDelta]))"

definition setTarget_scatter :: "rat \<Rightarrow> (nat \<Rightarrow> rat) \<Rightarrow> int \<Rightarrow> anim_scatter \<Rightarrow> anim_scatter" where
  "setTarget_scatter duration rnd newTarget s =
     (if newTarget \<le> s_targetRef s then s
      else
        (let s1 = s\<lparr>s_targetRef := newTarget\<rparr>
         in if \<not> s_initializedRef s1
            then s1\<lparr>s_initializedRef := True, s_displayRef := newTarget,
                    s_displayCount := newTarget\<rparr>
            else
              (let s2 = s1\<lparr>s_timers := []\<rparr>;
                   delta = newTarget - s_displayRef s2
               in if delta \<le> 0 then s2
                  else
                    (let immediate = min delta 1;
                         s3 = (if immediate > 0
                               then s2\<lparr>s_displayRef :=
                                         min (s_displayRef s2 + immediate) (s_targetRef s2),
                                       s_displayCount :=
                                         min (s_displayRef s2 + immediate) (s_targetRef s2)\<rparr>
                               else s2);
                         animationDelta = delta - immediate
                     in if animationDelta \<le> 0 then s3
                        else if animationDelta > 500
                        then s3\<lparr>s_timers := batch_timers duration animationDelta\<rparr>
                        else s3\<lparr>s_timers := single_timers duration rnd animationDelta\<rparr>))))"

definition addImmediate_scatter :: "int \<Rightarrow> anim_scatter \<Rightarrow> anim_scatter" where
  "addImmediate_scatter n s =
     s\<lparr>s_targetRef := s_targetRef s + n,
       s_displayRef := s_displayRef s + n,
       s_displayCount := s_displayRef s + n,
       s_initializedRef := True\<rparr>"

text \<open>The callback of a timer.\<close>

fun run_timer :: "timer_action \<Rightarrow> anim_scatter \<Rightarrow> anim_scatter" where
  "run_timer AddOne s =
     s\<lparr>s_displayRef := s_displayRef s + 1, s_displayCount := s_displayRef s + 1\<rparr>"
| "run_timer (AddCapped inc) s =
     s\<lparr>s_displayRef := min (s_displayRef s + inc) (s_targetRef s),
       s_displayCount := min (s_displayRef s + inc) (s_targetRef s)\<rparr>"

text \<open>The pending timer at position \<open>i\<close> fires: it leaves the pending timers and runs.\<close>

definition fire :: "nat \<Rightarrow> anim_scatter \<Rightarrow> anim_scatter" where
  "fire i s =
     (if i < length (s_timers s)
      then run_timer (snd (s_timers s ! i))
             (s\<lparr>s_timers := take i (s_timers s) @ drop (Suc i) (s_timers s)\<rparr>)
      else s)"

datatype scatter_event = SetTargetS "nat \<Rightarrow> rat" int | AddImmediateS int | Fire nat

fun scatter_step :: "rat \<Rightarrow> anim_scatter \<Rightarrow> scatter_event \<Rightarrow> anim_scatter" where
  "scatter_step duration s (SetTargetS rnd newTarget) = setTarget_scatter duration rnd newTarget s"
| "scatter_step duration s (AddImmediateS n) = addImmediate_scatter n s"
| "scatter_step duration s (Fire i) = fire i s"

fun scatter_observations :: "rat \<Rightarrow> anim_scatter \<Rightarrow> scatter_event list \<Rightarrow> anim_scatter list" where
  "scatter_observations duration s [] = [s]"
| "scatter_observations duration s (e # es) =
     s # scatter_observations duration (scatter_step duration s e) es"

fun scatter_adds_nonneg :: "scatter_event list \<Rightarrow> bool" where
  "scatter_adds_nonneg [] = True"
| "scatter_adds_nonneg (AddImmediateS n # es) = (0 \<le> n \<and> scatter_adds_nonneg es)"
| "scatter_adds_nonneg (e # es) = scatter_adds_nonneg es"

section \<open>The batch senders of the client (src/App.tsx, lines 93-159)\<close>

text \<open>
  The refs and the state that the sender reads and writes, and the state of the hook.
  \<^verbatim>\<open>Date.now()\<close> is in whole milliseconds. \<open>errorTimerRef\<close> is the time at which the
  pending timer clears the banner.
\<close>

record client =
  pendingRef :: int
  rateLimitedUntilRef :: int
  localDeltaRef :: int
  turnstileTokenRef :: string
  error :: "string option"
  errorTimerRef :: "int option"
  hook :: anim

text \<open>
  What \<^verbatim>\<open>fetch\<close> of \<^verbatim>\<open>/click\<close> comes to: a rejection, or a response with its status
  and, where \<^verbatim>\<open>resp.json()\<close> succeeds, the total of its body.
\<close>

datatype click_reply = FetchRejected | Replied nat "int option"

text \<open>
  The periodic sender (lines 93-135) is the callback of an interval of 1000 ms. The
  callback up to its \<^verbatim>\<open>await fetch\<close>, at the reading \<open>now\<close> of
  \<^verbatim>\<open>Date.now()\<close>: nothing is sent, or a batch leaves the buffer and is sent with the
  token.
\<close>

definition sender_start :: "int \<Rightarrow> client \<Rightarrow> client \<times> (int \<times> string) option" where
  "sender_start now s =
     (if pendingRef s \<le> 0 then (s, None)
      else if now < rateLimitedUntilRef s then (s, None)
      else
        (let batch = min (pendingRef s) 200
         in (s\<lparr>pendingRef := pendingRef s - batch\<rparr>, Some (batch, turnstileTokenRef s))))"

text \<open>The \<^verbatim>\<open>catch\<close> block (lines 127-132).\<close>

definition sender_catch :: "int \<Rightarrow> int \<Rightarrow> client \<Rightarrow> client" where
  "sender_catch now batch s =
     s\<lparr>pendingRef := pendingRef s + batch,
       error := Some ''connection lost'',
       errorTimerRef := Some (now + 3000)\<rparr>"

text \<open>
  The callback after its \<^verbatim>\<open>await fetch\<close>, at the readings \<open>now\<close> of \<^verbatim>\<open>Date.now()\<close>
  and \<open>pnow\<close> of \<^verbatim>\<open>performance.now()\<close>, with the batch that was sent.
\<close>

definition sender_settle :: "int \<Rightarrow> rat \<Rightarrow> int \<Rightarrow> click_reply \<Rightarrow> client \<Rightarrow> client" where
  "sender_settle now pnow batch reply s =
     (case reply of
        FetchRejected \<Rightarrow> sender_catch now batch s
      | Replied st parsed \<Rightarrow>
          if 200 \<le> st \<and> st \<le> 299 then
            (case parsed of
               None \<Rightarrow> sender_catch now batch s
             | Some server_total \<Rightarrow>
                 (let s1 = s\<lparr>localDeltaRef := max 0 (localDeltaRef s - batch)\<rparr>
                  in s1\<lparr>hook := setTarget pnow (server_total + localDeltaRef s1) (hook s1),
                        error := None\<rparr>))
          else if st = 429 then
            s\<lparr>pendingRef := pendingRef s + batch,
              rateLimitedUntilRef := now + 5000,
              error := Some ''slow down!'',
              errorTimerRef := Some (now + 3000)\<rparr>
          else s\<lparr>localDeltaRef := max 0 (localDeltaRef s - batch)\<rparr>)"

text \<open>
  \<^verbatim>\<open>flush\<close> (lines 138-149), which runs when the page is hidden or unloaded: a batch
  leaves the buffer and is sent, with no look at \<^verbatim>\<open>rateLimitedUntilRef\<close>. The fetch is
  not awaited and its rejection is swallowed by \<^verbatim>\<open>.catch(() => {})\<close>, so whatever the
  fetch comes to, the client stays as it is.
\<close>

definition flush :: "client \<Rightarrow> client \<times> (int \<times> string) option" where
  "flush s =
     (if pendingRef s \<le> 0 then (s, None)
      else
        (let batch = min (pendingRef s) 200
         in (s\<lparr>pendingRef := pendingRef s - batch\<rparr>, Some (batch, turnstileTokenRef s))))"



section \<open>Concrete inputs\<close>

text \<open>
  A platform for the concrete cases: a stand-in for the digest that keeps distinct
  addresses distinct, and a siteverify service with a fixed answer.
\<close>

definition tagged_hash :: "string \<Rightarrow> string" where
  "tagged_hash ip = ''sha256:'' @ ip"

definition service :: "fetch_outcome \<Rightarrow> string \<times> string \<times> string \<Rightarrow> fetch_outcome" where
  "service answer question = answer"

definition platform_with :: "fetch_outcome \<Rightarrow> platform" where
  "platform_with answer = \<lparr>hashIP = tagged_hash, siteverify = service answer\<rparr>"

definition empty_db :: db where
  "empty_db = \<lparr>counter_total = 0, click_batches = [], turnstile_verified = Map.empty\<rparr>"

definition at_second :: "timestamp \<Rightarrow> clock" where
  "at_second t = \<lparr>at_recent = t, at_mark = t, at_insert = t\<rparr>"

definition click_request :: "jsval \<Rightarrow> jsval \<Rightarrow> string option \<Rightarrow> request" where
  "click_request cnt token ip =
     \<lparr>req_body = JObject cnt token, cf_connecting_ip = ip, cf_ipcountry = None\<rparr>"

definition idle_client :: "int \<Rightarrow> client" where
  "idle_client pending =
     \<lparr>pendingRef = pending, rateLimitedUntilRef = 0, localDeltaRef = pending,
      turnstileTokenRef = ''tok'', error = None, errorTimerRef = None, hook = anim_init\<rparr>"

text \<open>A store where the address-less identity has used its 200 clicks at second 100.\<close>

definition busy_db :: db where
  "busy_db =
     \<lparr>counter_total = 200,
      click_batches = [\<lparr>b_count = 200, b_ip_hash = tagged_hash ''unknown'',
                        b_country = ''unknown'', b_created_at = 100\<rparr>],
      turnstile_verified = Map.empty\<rparr>"

text \<open>A store with a given total and no rows.\<close>

definition db_with_total :: "int \<Rightarrow> db" where
  "db_with_total t = \<lparr>counter_total = t, click_batches = [], turnstile_verified = Map.empty\<rparr>"

section \<open>Invariants\<close>

text \<open>
  In every state the hook reaches, the displayed value is not above the target,
  \<^verbatim>\<open>displayCount\<close> is \<^verbatim>\<open>null\<close> or the value of \<^verbatim>\<open>displayRef\<close>, and it is a
  number once the hook is initialized.
\<close>

definition anim_inv :: "anim \<Rightarrow> bool" where
  "anim_inv s =
     (displayRef s \<le> targetRef s \<and>
      (displayCount s = None \<or> displayCount s = Some (displayRef s)) \<and>
      (initializedRef s \<longrightarrow> displayCount s \<noteq> None))"

text \<open>
  What holds from a call of \<^verbatim>\<open>setTarget\<close> at \<open>start\<close> that begins an animation until
  the next such call: the anchors span a positive gap up to the target, and a frame is
  requested.
\<close>

definition animating :: "rat \<Rightarrow> anim \<Rightarrow> bool" where
  "animating start s =
     (anim_inv s \<and> initializedRef s \<and> animStartRef s = start \<and>
      animTargetRef s = targetRef s \<and> animStartDisplayRef s < animTargetRef s \<and> rafRef s)"

text \<open>In the copy with the frame loop, \<^verbatim>\<open>displayCount\<close> is always the value of the ref.\<close>

definition rate_inv :: "anim_rate \<Rightarrow> bool" where
  "rate_inv s = (r_displayRef s \<le> r_targetRef s \<and> r_displayCount s = r_displayRef s)"

text \<open>
  In the copy with timers, no timer is pending before the hook is initialized, and the
  timers pending are either the capped ones of a large delta, each adding a positive
  amount, or single increments that add up to no more than what is missing to the target.
\<close>

definition scatter_inv :: "anim_scatter \<Rightarrow> bool" where
  "scatter_inv s =
     (s_displayRef s \<le> s_targetRef s \<and> s_displayCount s = s_displayRef s \<and>
      (\<not> s_initializedRef s \<longrightarrow> s_timers s = []) \<and>
      ((\<forall>x \<in> set (s_timers s). \<exists>inc. 0 < inc \<and> snd x = AddCapped inc) \<or>
       ((\<forall>x \<in> set (s_timers s). snd x = AddOne) \<and>
        s_displayRef s + int (length (s_timers s)) \<le> s_targetRef s)))"

text \<open>A request in flight carries a count that passed the count check.\<close>

fun task_ok :: "task \<Rightarrow> bool" where
  "task_ok (AtRecent c token ip ctry) = (0 < c)"
| "task_ok (AtSiteverify c tk ip ctry) = (0 < c)"
| "task_ok (AtMark c ip ctry) = (0 < c)"
| "task_ok (AtInsert c ip ctry) = (0 < c)"
| "task_ok t = True"

section \<open>Arithmetic used below\<close>

lemma floor_numeral_quotient:
  "\<lfloor>(numeral a :: rat) / numeral b\<rfloor> = numeral a div numeral b"
  using floor_divide_of_int_eq [of "numeral a" "numeral b", where ?'a = rat] by simp


text \<open>Up to \<open>2 ^ 53\<close> in magnitude every integer is a double.\<close>

lemma ulp_small: "n < 2 ^ 53 \<Longrightarrow> ulp n = 1"
  by (subst ulp.simps) simp

lemma ulp_at_limit: "ulp 9007199254740992 = 2"
  by (subst ulp.simps) (simp add: ulp_small)

lemma to_double_exact: "\<bar>x\<bar> \<le> 2 ^ 53 \<Longrightarrow> to_double x = x"
proof (cases "\<bar>x\<bar> < 2 ^ 53")
  case True
  then have "nat \<bar>x\<bar> < 2 ^ 53"
    by (simp add: nat_less_iff)
  then show ?thesis
    by (simp add: to_double_def ulp_small)
next
  case False
  assume "\<bar>x\<bar> \<le> 2 ^ 53"
  then have "\<bar>x\<bar> = 2 ^ 53"
    using False by simp
  then have n: "nat \<bar>x\<bar> = 2 ^ 53" and x: "x = 2 ^ 53 \<or> x = - (2 ^ 53)"
    by (auto simp: nat_eq_iff abs_if split: if_splits)
  show ?thesis
    using x by (auto simp: to_double_def n ulp_at_limit Let_def)
qed

lemma sum_as_double_exact:
  "\<bar>t\<bar> \<le> 2 ^ 53 \<Longrightarrow> \<bar>t + c\<bar> \<le> 2 ^ 53 \<Longrightarrow> sum_as_double t c = t + c"
  by (simp add: sum_as_double_def to_double_exact)

section \<open>Rejected batches\<close>

lemma turnstile_gate_tables:
  "turnstile_gate pf secret clk token ip d = Inr d1 \<Longrightarrow>
     click_batches d1 = click_batches d \<and> counter_total d1 = counter_total d"
  by (auto simp: turnstile_gate_def mark_verified_def
           split: if_splits option.splits completion.splits)

lemma turnstile_gate_verified:
  "identity_verified pf secret clk d req token \<Longrightarrow>
     \<exists>d1. turnstile_gate pf secret clk token (client_ip req) d = Inr d1"
  by (auto simp: turnstile_gate_def identity_verified_def split: option.splits)

text \<open>
  C1. A batch with a valid count from a verified identity whose window sum plus the count
  exceeds 200 is answered 429 "rate limited"; no row is appended to \<^verbatim>\<open>click_batches\<close>
  and the counter total is unchanged.
\<close>

theorem rate_limited_no_partial_effect:
  assumes body: "req_body req = JObject cnt token"
    and cnt: "valid_count cnt"
    and verified: "identity_verified pf secret clk d req token"
    and over: "\<not> window_sum (click_batches d) (hashIP pf (client_ip req)) (at_insert clk)
                  + count_value cnt \<le> 200"
  shows "snd (handleClick pf secret clk d req) = Response 429 (ErrorJSON ''rate limited'')
       \<and> click_batches (fst (handleClick pf secret clk d req)) = click_batches d
       \<and> counter_total (fst (handleClick pf secret clk d req)) = counter_total d"
proof -
  obtain d1 where gate: "turnstile_gate pf secret clk token (client_ip req) d = Inr d1"
    using turnstile_gate_verified [OF verified] by blast
  have same: "click_batches d1 = click_batches d" "counter_total d1 = counter_total d"
    using turnstile_gate_tables [OF gate] by simp_all
  have ins: "insert_click_batch (at_insert clk) (count_value cnt)
               (hashIP pf (client_ip req)) (client_country req) d1 = (d1, 0)"
    using over same by (simp add: insert_click_batch_def)
  show ?thesis
    using body cnt gate ins same by (simp add: handleClick_def)
qed

theorem rate_limited_no_partial_effect_witness:
  "req_body (click_request (JNumber 1) JUndefined None) = JObject (JNumber 1) JUndefined
   \<and> valid_count (JNumber 1)
   \<and> identity_verified (platform_with (Reply False)) ''secret'' (at_second 102) busy_db
        (click_request (JNumber 1) JUndefined None) JUndefined
   \<and> \<not> window_sum (click_batches busy_db)
          (hashIP (platform_with (Reply False)) (client_ip (click_request (JNumber 1) JUndefined None)))
          (at_insert (at_second 102)) + count_value (JNumber 1) \<le> 200
   \<and> snd (handleClick (platform_with (Reply False)) ''secret'' (at_second 102) busy_db
            (click_request (JNumber 1) JUndefined None))
       = Response 429 (ErrorJSON ''rate limited'')
   \<and> click_batches (fst (handleClick (platform_with (Reply False)) ''secret'' (at_second 102)
            busy_db (click_request (JNumber 1) JUndefined None)))
       = click_batches busy_db
   \<and> counter_total (fst (handleClick (platform_with (Reply False)) ''secret'' (at_second 102)
            busy_db (click_request (JNumber 1) JUndefined None)))
       = counter_total busy_db"
proof -
  let ?pf = "platform_with (Reply False)"
  let ?req = "click_request (JNumber 1) JUndefined None"
  have h1: "req_body ?req = JObject (JNumber 1) JUndefined"
    by (simp add: click_request_def)
  have h2: "valid_count (JNumber 1)"
    by simp
  have h3: "identity_verified ?pf ''secret'' (at_second 102) busy_db ?req JUndefined"
    by (simp add: identity_verified_def click_request_def client_ip_def isLocal_def)
  have h4: "\<not> window_sum (click_batches busy_db) (hashIP ?pf (client_ip ?req))
                (at_insert (at_second 102)) + count_value (JNumber 1) \<le> 200"
    by (simp add: window_sum_def busy_db_def platform_with_def click_request_def
          client_ip_def at_second_def)
  show ?thesis
    using rate_limited_no_partial_effect [OF h1 h2 h3 h4] h1 h2 h3 h4 by blast
qed

text \<open>
  The earlier worker answers 429 where the identity has ten batches in the window, and
  leaves the database as it was.
\<close>

lemma rate_limited_no_partial_effect_plan:
  assumes "snd (handleClick_plan pf secret at_check at_batch d req) = Response 429 p"
  shows "fst (handleClick_plan pf secret at_check at_batch d req) = d"
  using assms
  by (auto simp: handleClick_plan_def insert_and_increment_plan_def
           split: body.splits if_splits option.splits completion.splits)

section \<open>The total\<close>

lemma count_value_positive: "valid_count cnt \<Longrightarrow> 1 \<le> count_value cnt"
  by (cases cnt) (simp_all add: not_less le_floor_iff)

text \<open>
  What one request does to the total: nothing, or, where the batch is accepted, the sum in
  doubles with its count.
\<close>

lemma handleClick_total:
  "counter_total (fst (handleClick pf secret clk d req))
     = (if accepted_count (Click clk req) (snd (handleClick pf secret clk d req)) = 0
        then counter_total d
        else sum_as_double (counter_total d)
               (accepted_count (Click clk req) (snd (handleClick pf secret clk d req))))"
proof (cases "req_body req")
  case (JObject cnt token)
  show ?thesis
  proof (cases "valid_count cnt")
    case True
    have pos: "count_value cnt \<noteq> 0"
      using count_value_positive [OF True] by simp
    show ?thesis
    proof (cases "turnstile_gate pf secret clk token (client_ip req) d")
      case (Inl resp)
      then have "resp = Uncaught \<or> (\<exists>st m. resp = Response st (ErrorJSON m))"
        by (auto simp: turnstile_gate_def split: if_splits option.splits completion.splits)
      then show ?thesis
        using JObject True Inl by (auto simp: handleClick_def)
    next
      case (Inr d1)
      then show ?thesis
        using JObject True pos turnstile_gate_tables [OF Inr]
        by (simp add: handleClick_def insert_click_batch_def increment_counter_def)
    qed
  next
    case False
    then show ?thesis
      using JObject by (simp add: handleClick_def)
  qed
qed (simp_all add: handleClick_def)

lemma accepted_count_nonneg:
  "0 \<le> accepted_count (Click clk req) (snd (handleClick pf secret clk d req))"
proof (cases "req_body req")
  case (JObject cnt token)
  show ?thesis
  proof (cases "valid_count cnt")
    case True
    have "accepted_count (Click clk req) r = 0
        \<or> accepted_count (Click clk req) r = count_value cnt" for r
      using JObject by (cases r) (simp, (rename_tac st p, case_tac p, simp_all))
    then show ?thesis
      using count_value_positive [OF True] by (metis order_refl zero_le_one order_trans)
  next
    case False
    then show ?thesis
      using JObject by (simp add: handleClick_def)
  qed
qed (simp_all add: handleClick_def)

lemma perform_accepted_nonneg: "0 \<le> accepted_count op (snd (perform pf secret d op))"
  by (cases op) (simp_all add: accepted_count_nonneg)

lemma perform_all_accepted_nonneg:
  "0 \<le> accepted_sum ops (snd (perform_all pf secret d ops))"
proof (induction ops arbitrary: d)
  case Nil
  then show ?case by simp
next
  case (Cons op ops)
  show ?case
    using Cons.IH [of "fst (perform pf secret d op)"] perform_accepted_nonneg [of op pf secret d]
    by (simp add: split_beta)
qed

text \<open>Within the exact range one operation adds the count it accepts.\<close>

lemma perform_total:
  assumes "- (2 ^ 53) \<le> counter_total d"
    and "counter_total d + accepted_count op (snd (perform pf secret d op)) \<le> 2 ^ 53"
  shows "counter_total (fst (perform pf secret d op))
           = counter_total d + accepted_count op (snd (perform pf secret d op))"
proof (cases op)
  case (Click clk req)
  let ?a = "accepted_count (Click clk req) (snd (handleClick pf secret clk d req))"
  have a: "0 \<le> ?a"
    by (rule accepted_count_nonneg)
  have "\<bar>counter_total d\<bar> \<le> 2 ^ 53" and "\<bar>counter_total d + ?a\<bar> \<le> 2 ^ 53"
    using assms a Click by simp_all
  then have "sum_as_double (counter_total d) ?a = counter_total d + ?a"
    by (rule sum_as_double_exact)
  then show ?thesis
    using Click handleClick_total [of pf secret clk d req] by simp
next
  case (Count cached)
  then show ?thesis
    by simp
qed

lemma perform_all_total:
  assumes "- (2 ^ 53) \<le> counter_total d"
    and "counter_total d + accepted_sum ops (snd (perform_all pf secret d ops)) \<le> 2 ^ 53"
  shows "counter_total (fst (perform_all pf secret d ops))
           = counter_total d + accepted_sum ops (snd (perform_all pf secret d ops))
       \<and> sorted (totals_along pf secret d ops)"
  using assms
proof (induction ops arbitrary: d)
  case Nil
  then show ?case by simp
next
  case (Cons op ops)
  let ?d1 = "fst (perform pf secret d op)"
  let ?a = "accepted_count op (snd (perform pf secret d op))"
  let ?rest = "accepted_sum ops (snd (perform_all pf secret ?d1 ops))"
  have a: "0 \<le> ?a"
    by (rule perform_accepted_nonneg)
  have rest: "0 \<le> ?rest"
    by (rule perform_all_accepted_nonneg)
  have whole: "counter_total d + (?a + ?rest) \<le> 2 ^ 53"
    using Cons.prems(2) by (simp add: split_beta)
  have step: "counter_total ?d1 = counter_total d + ?a"
    using perform_total [OF Cons.prems(1)] whole rest by simp
  have low: "- (2 ^ 53) \<le> counter_total ?d1"
    using step a Cons.prems(1) by simp
  have high: "counter_total ?d1 + ?rest \<le> 2 ^ 53"
    using step whole by simp
  note ih = Cons.IH [OF low high]
  have "totals_along pf secret ?d1 ops \<noteq> []"
    by (cases ops) simp_all
  moreover have "hd (totals_along pf secret ?d1 ops) = counter_total ?d1"
    by (cases ops) simp_all
  ultimately have "\<forall>x \<in> set (totals_along pf secret ?d1 ops). counter_total ?d1 \<le> x"
    using ih by (cases "totals_along pf secret ?d1 ops") auto
  then have "sorted (totals_along pf secret d (op # ops))"
    using ih step a by auto
  moreover have "counter_total (fst (perform_all pf secret d (op # ops)))
      = counter_total d + accepted_sum (op # ops) (snd (perform_all pf secret d (op # ops)))"
    using ih step by (simp add: split_beta)
  ultimately show ?case
    by blast
qed

text \<open>
  C3, as the claim states it, fails beyond the integers that a JavaScript number holds
  exactly. From a total of \<open>2 ^ 53 + 1\<close> a batch of one click is accepted, and the total
  afterwards is \<open>2 ^ 53\<close>: not the sum, and lower than before.
\<close>

theorem total_rounds_beyond_exact_range:
  "snd (perform_all (platform_with (Reply False)) ''secret'' (db_with_total 9007199254740993)
          [Click (at_second 100) (click_request (JNumber 1) JUndefined None)])
     = [Response 200 (OkJSON 9007199254740992)]
   \<and> counter_total (fst (perform_all (platform_with (Reply False)) ''secret''
          (db_with_total 9007199254740993)
          [Click (at_second 100) (click_request (JNumber 1) JUndefined None)]))
     = 9007199254740992
   \<and> totals_along (platform_with (Reply False)) ''secret'' (db_with_total 9007199254740993)
          [Click (at_second 100) (click_request (JNumber 1) JUndefined None)]
     = [9007199254740993, 9007199254740992]"
  by (simp add: handleClick_def turnstile_gate_def click_request_def client_ip_def
        client_country_def isLocal_def insert_click_batch_def increment_counter_def
        window_sum_def db_with_total_def at_second_def sum_as_double_def to_double_def
        ulp.simps)

text \<open>
  C3, amended. From an initial total T of at least \<open>- 2 ^ 53\<close>, after any run of
  operations in which T plus the counts of the accepted batches is at most \<open>2 ^ 53\<close>, the
  total is T plus those counts, and the totals before, between and after the operations
  never decrease.
\<close>

theorem total_is_sum_of_accepted:
  assumes "- (2 ^ 53) \<le> counter_total d"
    and "counter_total d + accepted_sum ops (snd (perform_all pf secret d ops)) \<le> 2 ^ 53"
  shows "counter_total (fst (perform_all pf secret d ops))
           = counter_total d + accepted_sum ops (snd (perform_all pf secret d ops))
       \<and> sorted (totals_along pf secret d ops)"
  using assms by (rule perform_all_total)

text \<open>
  A run with two accepted batches, a read, a count out of range and a batch over the cap,
  from a total of 1000.
\<close>

theorem total_is_sum_of_accepted_witness:
  "- (2 ^ 53) \<le> counter_total (db_with_total 1000)
   \<and> counter_total (db_with_total 1000)
       + accepted_sum
           [Click (at_second 100) (click_request (JNumber 47) JUndefined None),
            Count None,
            Click (at_second 101) (click_request (JNumber 250) JUndefined None),
            Click (at_second 102) (click_request (JNumber 150) JUndefined None),
            Click (at_second 103) (click_request (JNumber 10) JUndefined None)]
           (snd (perform_all (platform_with (Reply False)) ''secret'' (db_with_total 1000)
              [Click (at_second 100) (click_request (JNumber 47) JUndefined None),
               Count None,
               Click (at_second 101) (click_request (JNumber 250) JUndefined None),
               Click (at_second 102) (click_request (JNumber 150) JUndefined None),
               Click (at_second 103) (click_request (JNumber 10) JUndefined None)]))
       \<le> 2 ^ 53
   \<and> snd (perform_all (platform_with (Reply False)) ''secret'' (db_with_total 1000)
        [Click (at_second 100) (click_request (JNumber 47) JUndefined None),
         Count None,
         Click (at_second 101) (click_request (JNumber 250) JUndefined None),
         Click (at_second 102) (click_request (JNumber 150) JUndefined None),
         Click (at_second 103) (click_request (JNumber 10) JUndefined None)])
     = [Response 200 (OkJSON 1047),
        Response 200 (TotalJSON 1047),
        Response 400 (ErrorJSON ''count must be integer 1-200''),
        Response 200 (OkJSON 1197),
        Response 429 (ErrorJSON ''rate limited'')]
   \<and> counter_total (fst (perform_all (platform_with (Reply False)) ''secret''
        (db_with_total 1000)
        [Click (at_second 100) (click_request (JNumber 47) JUndefined None),
         Count None,
         Click (at_second 101) (click_request (JNumber 250) JUndefined None),
         Click (at_second 102) (click_request (JNumber 150) JUndefined None),
         Click (at_second 103) (click_request (JNumber 10) JUndefined None)]))
     = 1000 + (47 + 150)
   \<and> totals_along (platform_with (Reply False)) ''secret'' (db_with_total 1000)
        [Click (at_second 100) (click_request (JNumber 47) JUndefined None),
         Count None,
         Click (at_second 101) (click_request (JNumber 250) JUndefined None),
         Click (at_second 102) (click_request (JNumber 150) JUndefined None),
         Click (at_second 103) (click_request (JNumber 10) JUndefined None)]
     = [1000, 1047, 1047, 1047, 1197, 1197]"
proof -
  let ?pf = "platform_with (Reply False)"
  let ?ops = "[Click (at_second 100) (click_request (JNumber 47) JUndefined None),
               Count None,
               Click (at_second 101) (click_request (JNumber 250) JUndefined None),
               Click (at_second 102) (click_request (JNumber 150) JUndefined None),
               Click (at_second 103) (click_request (JNumber 10) JUndefined None)]"
  have run: "snd (perform_all ?pf ''secret'' (db_with_total 1000) ?ops)
     = [Response 200 (OkJSON 1047),
        Response 200 (TotalJSON 1047),
        Response 400 (ErrorJSON ''count must be integer 1-200''),
        Response 200 (OkJSON 1197),
        Response 429 (ErrorJSON ''rate limited'')]"
    by (simp add: handleClick_def handleCount_def turnstile_gate_def click_request_def
          client_ip_def client_country_def isLocal_def insert_click_batch_def
          increment_counter_def window_sum_def db_with_total_def at_second_def
          sum_as_double_exact to_double_exact)
  have along: "totals_along ?pf ''secret'' (db_with_total 1000) ?ops
     = [1000, 1047, 1047, 1047, 1197, 1197]"
    by (simp add: handleClick_def handleCount_def turnstile_gate_def click_request_def
          client_ip_def client_country_def isLocal_def insert_click_batch_def
          increment_counter_def window_sum_def db_with_total_def at_second_def
          sum_as_double_exact to_double_exact)
  have h1: "- (2 ^ 53) \<le> counter_total (db_with_total 1000)"
    by (simp add: db_with_total_def)
  have acc: "accepted_sum ?ops (snd (perform_all ?pf ''secret'' (db_with_total 1000) ?ops))
               = 47 + 150"
    unfolding run by (simp add: click_request_def)
  have h2: "counter_total (db_with_total 1000)
              + accepted_sum ?ops (snd (perform_all ?pf ''secret'' (db_with_total 1000) ?ops))
            \<le> 2 ^ 53"
    unfolding acc by (simp add: db_with_total_def)
  have total: "counter_total (fst (perform_all ?pf ''secret'' (db_with_total 1000) ?ops))
                 = 1000 + (47 + 150)"
    using total_is_sum_of_accepted [OF h1 h2] acc by (simp add: db_with_total_def)
  show ?thesis
    by (rule conjI [OF h1 conjI [OF h2 conjI [OF run conjI [OF total along]]]])
qed

text \<open>The earlier worker changes the total in the same way.\<close>

lemma handleClick_plan_total:
  "counter_total (fst (handleClick_plan pf secret at_check at_batch d req))
     = (if accepted_count (Click clk req)
             (snd (handleClick_plan pf secret at_check at_batch d req)) = 0
        then counter_total d
        else sum_as_double (counter_total d)
               (accepted_count (Click clk req)
                  (snd (handleClick_plan pf secret at_check at_batch d req))))"
proof (cases "req_body req")
  case (JObject cnt token)
  show ?thesis
  proof (cases "valid_count cnt")
    case True
    have pos: "count_value cnt \<noteq> 0"
      using count_value_positive [OF True] by simp
    show ?thesis
      using JObject True pos
      by (auto simp: handleClick_plan_def insert_and_increment_plan_def
               split: option.splits completion.splits)
  next
    case False
    then show ?thesis
      using JObject by (simp add: handleClick_plan_def)
  qed
qed (simp_all add: handleClick_plan_def)

section \<open>The window cap under interleaving\<close>

lemma sum_filter_mono:
  assumes "\<forall>x \<in> set xs. (0::int) \<le> f x" and "\<forall>x \<in> set xs. P x \<longrightarrow> Q x"
  shows "sum_list (map f (filter P xs)) \<le> sum_list (map f (filter Q xs))"
  using assms by (induction xs) auto

lemma window_total_append:
  "window_total (rows @ [r]) h t =
     window_total rows h t +
     (if b_ip_hash r = h \<and> t - 5 < b_created_at r \<and> b_created_at r \<le> t then b_count r else 0)"
  by (simp add: window_total_def)

text \<open>
  A window that holds a row is contained in the window that ends at its latest row, so the
  cap at the rows' own times is the cap at every time.
\<close>

lemma window_total_capped:
  assumes pos: "\<forall>r \<in> set rows. 0 < b_count r"
    and cap: "\<forall>r \<in> set rows. window_total rows (b_ip_hash r) (b_created_at r) \<le> 200"
  shows "window_total rows h t \<le> 200"
proof -
  let ?P = "\<lambda>r. b_ip_hash r = h \<and> t - 5 < b_created_at r \<and> b_created_at r \<le> t"
  let ?W = "filter ?P rows"
  show ?thesis
  proof (cases "?W = []")
    case True
    then show ?thesis
      by (simp add: window_total_def)
  next
    case False
    define m where "m = Max (b_created_at ` set ?W)"
    have "set ?W \<noteq> {}"
      using False by (simp only: set_empty not_False_eq_True)
    then have ne: "b_created_at ` set ?W \<noteq> {}"
      by (simp only: image_is_empty not_False_eq_True)
    have fin: "finite (b_created_at ` set ?W)"
      by (rule finite_imageI) (rule finite_set)
    have "m \<in> b_created_at ` set ?W"
      unfolding m_def using fin ne by (rule Max_in)
    then obtain r where r: "r \<in> set ?W" "b_created_at r = m"
      by auto
    have top: "\<forall>x \<in> set ?W. b_created_at x \<le> m"
      unfolding m_def using fin by simp
    have rin: "r \<in> set rows" "b_ip_hash r = h" "m \<le> t"
      using r by auto
    have nonneg: "\<forall>x \<in> set rows. 0 \<le> b_count x"
      using pos by (simp add: less_imp_le)
    have inside: "\<forall>x \<in> set rows. ?P x \<longrightarrow>
                    (b_ip_hash x = h \<and> m - 5 < b_created_at x \<and> b_created_at x \<le> m)"
    proof (intro ballI impI)
      fix x
      assume x: "x \<in> set rows" and p: "?P x"
      then have "x \<in> set ?W"
        by simp
      then have "b_created_at x \<le> m"
        using top by blast
      then show "b_ip_hash x = h \<and> m - 5 < b_created_at x \<and> b_created_at x \<le> m"
        using p rin(3) by simp
    qed
    have "window_total rows h t \<le> window_total rows h m"
      unfolding window_total_def using sum_filter_mono [OF nonneg inside] by simp
    also have "\<dots> \<le> 200"
      using cap rin(1,2) r(2) by blast
    finally show ?thesis .
  qed
qed

lemma ledger_ok_iff:
  "ledger_ok now rows \<longleftrightarrow>
     (\<forall>r \<in> set rows. 0 < b_count r \<and> b_created_at r \<le> now) \<and>
     (\<forall>h t. window_total rows h t \<le> 200)"
proof
  assume ok: "ledger_ok now rows"
  then have each: "\<forall>r \<in> set rows. 0 < b_count r \<and> b_created_at r \<le> now \<and>
                     window_total rows (b_ip_hash r) (b_created_at r) \<le> 200"
    by (simp add: ledger_ok_def list_all_iff)
  then have "\<forall>h t. window_total rows h t \<le> 200"
    using window_total_capped [of rows] by blast
  then show "(\<forall>r \<in> set rows. 0 < b_count r \<and> b_created_at r \<le> now) \<and>
             (\<forall>h t. window_total rows h t \<le> 200)"
    using each by blast
next
  assume "(\<forall>r \<in> set rows. 0 < b_count r \<and> b_created_at r \<le> now) \<and>
          (\<forall>h t. window_total rows h t \<le> 200)"
  then show "ledger_ok now rows"
    by (simp add: ledger_ok_def list_all_iff)
qed

lemma ledger_ok_later: "ledger_ok t0 rows \<Longrightarrow> t0 \<le> now \<Longrightarrow> ledger_ok now rows"
  unfolding ledger_ok_iff by force

text \<open>
  At the time of the insert no row is later than the clock, so the sum that the statement
  computes bounds the total of every window that the new row enters.
\<close>

lemma window_total_le_window_sum:
  assumes rows: "\<forall>r \<in> set rows. 0 < b_count r \<and> b_created_at r \<le> now" and "now \<le> t"
  shows "window_total rows h t \<le> window_sum rows h now"
proof -
  have nonneg: "\<forall>x \<in> set rows. 0 \<le> b_count x"
    using rows by (simp add: less_imp_le)
  have "\<forall>x \<in> set rows.
          (b_ip_hash x = h \<and> t - 5 < b_created_at x \<and> b_created_at x \<le> t) \<longrightarrow>
          (b_ip_hash x = h \<and> b_created_at x > now - 5)"
    using assms(2) by auto
  from sum_filter_mono [OF nonneg this] show ?thesis
    by (simp add: window_total_def window_sum_def)
qed

lemma insert_click_batch_ledger:
  assumes ok: "ledger_ok t0 (click_batches d)" and later: "t0 \<le> now" and c: "0 < c"
  shows "ledger_ok now (click_batches (fst (insert_click_batch now c h ctry d)))"
proof (cases "window_sum (click_batches d) h now + c \<le> 200")
  case False
  then show ?thesis
    using ledger_ok_later [OF ok later] by (simp add: insert_click_batch_def)
next
  case True
  let ?rows = "click_batches d"
  let ?r = "\<lparr>b_count = c, b_ip_hash = h, b_country = ctry, b_created_at = now\<rparr>"
  have old: "\<forall>r \<in> set ?rows. 0 < b_count r \<and> b_created_at r \<le> now"
    and cap: "\<forall>h t. window_total ?rows h t \<le> 200"
    using ledger_ok_later [OF ok later] unfolding ledger_ok_iff by blast+
  have "window_total (?rows @ [?r]) h' t \<le> 200" for h' t
  proof (cases "h = h' \<and> t - 5 < now \<and> now \<le> t")
    case False
    then show ?thesis
      using cap by (auto simp: window_total_append)
  next
    case inside: True
    then have "window_total ?rows h t \<le> window_sum ?rows h now"
      using window_total_le_window_sum [OF old] by simp
    then show ?thesis
      using inside True by (simp add: window_total_append)
  qed
  moreover have "\<forall>r \<in> set (?rows @ [?r]). 0 < b_count r \<and> b_created_at r \<le> now"
    using old c by simp
  ultimately have "ledger_ok now (?rows @ [?r])"
    unfolding ledger_ok_iff by blast
  then show ?thesis
    using True by (simp add: insert_click_batch_def)
qed

lemma count_value_positive_task: "valid_count cnt \<Longrightarrow> 0 < count_value cnt"
  by (cases cnt) (simp_all add: not_less less_floor_iff)

lemma start_task_ok: "task_ok (start_task req)"
  by (simp add: start_task_def count_value_positive_task split: body.splits)

text \<open>One statement of one request keeps the ledger within the cap.\<close>

lemma advance_ledger:
  assumes "ledger_ok t0 (click_batches d)" and "t0 \<le> now" and "task_ok t"
  shows "ledger_ok now (click_batches (snd (advance pf secret now t d)))
       \<and> task_ok (fst (advance pf secret now t d))"
proof (cases t)
  case (AtInsert c ip ctry)
  then have c: "0 < c"
    using assms(3) by simp
  show ?thesis
    using AtInsert insert_click_batch_ledger [OF assms(1,2) c, of "hashIP pf ip" ctry]
    by (simp add: split_beta)
next
  case (AtRecent c token ip ctry)
  then show ?thesis
    using ledger_ok_later [OF assms(1,2)] assms(3) by (simp split: option.splits)
next
  case (AtSiteverify c tk ip ctry)
  then show ?thesis
    using ledger_ok_later [OF assms(1,2)] assms(3) by (simp split: completion.splits)
next
  case (AtMark c ip ctry)
  then show ?thesis
    using ledger_ok_later [OF assms(1,2)] assms(3) by (simp add: mark_verified_def)
next
  case (AtIncrement c)
  then show ?thesis
    using ledger_ok_later [OF assms(1,2)] by (simp add: increment_counter_def)
next
  case (Finished r)
  then show ?thesis
    using ledger_ok_later [OF assms(1,2)] by simp
qed

lemma list_all_update: "list_all P xs \<Longrightarrow> P y \<Longrightarrow> list_all P (xs[i := y])"
  by (induction xs arbitrary: i) (auto split: nat.splits)

lemma latest_reading:
  "nondecreasing_from t0 us \<Longrightarrow> \<exists>t1. t0 \<le> t1 \<and> (us = [] \<longrightarrow> t1 = t0) \<and> (us \<noteq> [] \<longrightarrow> t1 = last us)"
  by (induction us arbitrary: t0) (auto intro: order_trans)

lemma interleave_ledger:
  assumes "ledger_ok t0 (click_batches d)" and "nondecreasing_from t0 (map snd es)"
    and "list_all task_ok ts"
  shows "\<exists>t1. ledger_ok t1 (click_batches (snd (interleave pf secret es (ts, d))))"
  using assms
proof (induction es arbitrary: t0 ts d)
  case Nil
  then show ?case
    by auto
next
  case (Cons e es)
  obtain i now where e: "e = (i, now)"
    by (cases e)
  have later: "t0 \<le> now" and rest: "nondecreasing_from now (map snd es)"
    using Cons.prems(2) e by simp_all
  show ?case
  proof (cases "i < length ts")
    case False
    then show ?thesis
      using Cons.IH [OF ledger_ok_later [OF Cons.prems(1) later] rest Cons.prems(3)] e
      by simp
  next
    case True
    then have "task_ok (ts ! i)"
      using Cons.prems(3) by (simp add: list_all_length)
    from advance_ledger [OF Cons.prems(1) later this, of pf secret]
    have step: "ledger_ok now (click_batches (snd (advance pf secret now (ts ! i) d)))"
      "task_ok (fst (advance pf secret now (ts ! i) d))"
      by simp_all
    have tasks: "list_all task_ok (ts[i := fst (advance pf secret now (ts ! i) d)])"
      using list_all_update [OF Cons.prems(3) step(2)] .
    show ?thesis
      using Cons.IH [OF step(1) rest tasks] e True by (simp add: split_beta)
  qed
qed

text \<open>
  C2. Requests run one statement at a time in any order, at clock readings that do not go
  back, from a ledger within the cap. The check and the insert are the one statement of
  \<^verbatim>\<open>insert_click_batch\<close>, and after any such interleaving the counts of every identity
  in the five seconds up to any time sum to at most 200.
\<close>

theorem window_cap_under_interleaving:
  assumes "ledger_ok t0 (click_batches d)" and "nondecreasing_from t0 (map snd es)"
  shows "\<forall>h t. window_total
           (click_batches (snd (interleave pf secret es (map start_task reqs, d)))) h t \<le> 200"
proof -
  have "list_all task_ok (map start_task reqs)"
    by (simp add: list_all_iff start_task_ok)
  from interleave_ledger [OF assms this]
  obtain t1 where "ledger_ok t1
      (click_batches (snd (interleave pf secret es (map start_task reqs, d))))"
    by blast
  then show ?thesis
    unfolding ledger_ok_iff by blast
qed

theorem window_cap_under_interleaving_witness:
  "ledger_ok 0 (click_batches empty_db)
   \<and> nondecreasing_from 0 (map snd [(0::nat, 10), (1, 10), (0, 11), (1, 11)])
   \<and> (\<forall>h t. window_total
         (click_batches (snd (interleave (platform_with (Reply False)) ''secret''
            [(0, 10), (1, 10), (0, 11), (1, 11)]
            (map start_task [click_request (JNumber 150) JUndefined None,
                             click_request (JNumber 100) JUndefined None], empty_db)))) h t
         \<le> 200)
   \<and> interleave (platform_with (Reply False)) ''secret'' [(0, 10), (1, 10), (0, 11), (1, 11)]
        (map start_task [click_request (JNumber 150) JUndefined None,
                         click_request (JNumber 100) JUndefined None], empty_db)
     = ([Finished (Response 200 (OkJSON 150)),
         Finished (Response 429 (ErrorJSON ''rate limited''))],
        \<lparr>counter_total = 150,
         click_batches = [\<lparr>b_count = 150, b_ip_hash = ''sha256:unknown'',
                           b_country = ''unknown'', b_created_at = 10\<rparr>],
         turnstile_verified = Map.empty\<rparr>)"
proof -
  let ?es = "[(0, 10), (1, 10), (0, 11), (1, 11)] :: (nat \<times> timestamp) list"
  have h1: "ledger_ok 0 (click_batches empty_db)"
    by (simp add: ledger_ok_def empty_db_def)
  have h2: "nondecreasing_from 0 (map snd ?es)"
    by simp
  have run: "interleave (platform_with (Reply False)) ''secret'' ?es
        (map start_task [click_request (JNumber 150) JUndefined None,
                         click_request (JNumber 100) JUndefined None], empty_db)
     = ([Finished (Response 200 (OkJSON 150)),
         Finished (Response 429 (ErrorJSON ''rate limited''))],
        \<lparr>counter_total = 150,
         click_batches = [\<lparr>b_count = 150, b_ip_hash = ''sha256:unknown'',
                           b_country = ''unknown'', b_created_at = 10\<rparr>],
         turnstile_verified = Map.empty\<rparr>)"
    by (simp add: start_task_def click_request_def client_ip_def client_country_def isLocal_def
          insert_click_batch_def increment_counter_def window_sum_def empty_db_def
          platform_with_def tagged_hash_def sum_as_double_exact to_double_exact)
  have cap: "\<forall>h t. window_total
         (click_batches (snd (interleave (platform_with (Reply False)) ''secret'' ?es
            (map start_task [click_request (JNumber 150) JUndefined None,
                             click_request (JNumber 100) JUndefined None], empty_db)))) h t
         \<le> 200"
    by (rule window_cap_under_interleaving [OF h1 h2])
  show ?thesis
    by (rule conjI [OF h1 conjI [OF h2 conjI [OF cap run]]])
qed

text \<open>
  A request that runs its statements with no other request in between is
  \<^verbatim>\<open>handleClick\<close>: it needs at most five statements.
\<close>

lemma handleClick_as_statements:
  "advance_alone pf secret clk (advance_alone pf secret clk (advance_alone pf secret clk
     (advance_alone pf secret clk (advance_alone pf secret clk (start_task req, d)))))
   = (Finished (snd (handleClick pf secret clk d req)), fst (handleClick pf secret clk d req))"
  by (auto simp: advance_alone_def start_task_def handleClick_def turnstile_gate_def
        split_beta
      split: body.splits option.splits completion.splits)

text \<open>
  In the earlier worker the check and the insert are two statements. With nine batches of
  an identity in the window, two requests that both run the check before either runs the
  batch both read nine, both insert, and leave eleven batches in the window.
\<close>

lemma check_then_insert_race_plan:
  assumes nine: "rateCheck_plan now h d = 9"
  shows "\<not> rateCheck_plan now h d \<ge> 10
       \<and> rateCheck_plan now h
           (fst (insert_and_increment_plan now c2 h ctry
              (fst (insert_and_increment_plan now c1 h ctry d)))) = 11"
  using nine by (simp add: rateCheck_plan_def insert_and_increment_plan_def)

section \<open>Verification\<close>

text \<open>
  C7. When the call of the siteverify service fails with a transport error,
  \<^verbatim>\<open>verifyTurnstile\<close> returns false for every token, secret and address; it does not
  throw.
\<close>

theorem verifyTurnstile_fails_closed:
  "siteverify pf (secret, token, ip) = TransportError \<Longrightarrow>
     verifyTurnstile pf token secret ip = Returned False"
  by (simp add: verifyTurnstile_def)

theorem verifyTurnstile_fails_closed_witness:
  "siteverify (platform_with TransportError) (''secret'', ''token'', ''203.0.113.7'') = TransportError
   \<and> verifyTurnstile (platform_with TransportError) ''token'' ''secret'' ''203.0.113.7''
       = Returned False"
  using verifyTurnstile_fails_closed
          [of "platform_with TransportError" "''secret''" "''token''" "''203.0.113.7''"]
  by (simp add: platform_with_def service_def)

lemma verifyTurnstile_never_throws: "verifyTurnstile pf token secret ip \<noteq> Thrown"
  by (simp add: verifyTurnstile_def split: fetch_outcome.splits)

text \<open>The earlier copy has no \<^verbatim>\<open>try\<close>: there the transport error leaves the function.\<close>

lemma verifyTurnstile_plan_throws:
  "siteverify pf (secret, token, ip) = TransportError \<Longrightarrow>
     verifyTurnstile_plan pf token secret ip = Thrown"
  by (simp add: verifyTurnstile_plan_def)

text \<open>
  C8, as the claim states it, fails where the token is absent: the request of an address
  that is neither exempt nor recently verified, with a valid count and no token, is
  answered 400, not 403.
\<close>

theorem absent_token_not_403:
  "status (snd (handleClick (platform_with (Reply False)) ''secret'' (at_second 100) empty_db
             (click_request (JNumber 5) JUndefined (Some ''203.0.113.7'')))) = Some 400
   \<and> status (snd (handleClick (platform_with (Reply False)) ''secret'' (at_second 100) empty_db
             (click_request (JNumber 5) JUndefined (Some ''203.0.113.7'')))) \<noteq> Some 403"
  by (simp add: handleClick_def turnstile_gate_def click_request_def client_ip_def
        isLocal_def recentVerify_def empty_db_def)

text \<open>
  C8, amended. For a submission with a valid count from an address that is neither exempt
  nor recently verified: with no usable token (absent, not a string, or empty) the response
  is 400 "missing turnstile token"; with a token that siteverify does not accept the
  response is 403 "bot detected". In both cases the database is returned as it was: no
  ledger row, the same total, no verification record.
\<close>

theorem unverified_submission_rejected:
  assumes body: "req_body req = JObject cnt token"
    and cnt: "valid_count cnt"
    and not_exempt: "\<not> isLocal (client_ip req)"
    and not_recent: "\<not> recentVerify (at_recent clk) (hashIP pf (client_ip req)) d"
  shows "(usable_token token = None \<longrightarrow>
            handleClick pf secret clk d req
              = (d, Response 400 (ErrorJSON ''missing turnstile token'')))
       \<and> (\<forall>tk. usable_token token = Some tk
                \<and> verifyTurnstile pf tk secret (client_ip req) = Returned False \<longrightarrow>
            handleClick pf secret clk d req = (d, Response 403 (ErrorJSON ''bot detected'')))"
  using assms by (simp add: handleClick_def turnstile_gate_def)

theorem unverified_submission_rejected_witness:
  "handleClick (platform_with (Reply False)) ''secret'' (at_second 100) empty_db
     (click_request (JNumber 5) (JString ''forged'') (Some ''203.0.113.7''))
   = (empty_db, Response 403 (ErrorJSON ''bot detected''))
   \<and> handleClick (platform_with (Reply False)) ''secret'' (at_second 100) empty_db
     (click_request (JNumber 5) (JString '''') (Some ''203.0.113.7''))
   = (empty_db, Response 400 (ErrorJSON ''missing turnstile token''))"
proof -
  let ?pf = "platform_with (Reply False)"
  let ?forged = "click_request (JNumber 5) (JString ''forged'') (Some ''203.0.113.7'')"
  let ?blank = "click_request (JNumber 5) (JString '''') (Some ''203.0.113.7'')"
  have ip: "client_ip ?forged = ''203.0.113.7''" "client_ip ?blank = ''203.0.113.7''"
    by (simp_all add: click_request_def client_ip_def)
  have b1: "req_body ?forged = JObject (JNumber 5) (JString ''forged'')"
    and b2: "req_body ?blank = JObject (JNumber 5) (JString '''')"
    by (simp_all add: click_request_def)
  have c: "valid_count (JNumber 5)"
    by simp
  have e1: "\<not> isLocal (client_ip ?forged)" and e2: "\<not> isLocal (client_ip ?blank)"
    by (simp_all add: ip isLocal_def)
  have r1: "\<not> recentVerify (at_recent (at_second 100)) (hashIP ?pf (client_ip ?forged)) empty_db"
    and r2: "\<not> recentVerify (at_recent (at_second 100)) (hashIP ?pf (client_ip ?blank)) empty_db"
    by (simp_all add: recentVerify_def empty_db_def)
  have v: "verifyTurnstile ?pf ''forged'' ''secret'' (client_ip ?forged) = Returned False"
    by (simp add: verifyTurnstile_def platform_with_def service_def)
  have t1: "usable_token (JString ''forged'') = Some ''forged''"
    and t2: "usable_token (JString '''') = None"
    by simp_all
  show ?thesis
    using unverified_submission_rejected [OF b1 c e1 r1, of "''secret''"]
      unverified_submission_rejected [OF b2 c e2 r2, of "''secret''"] v t1 t2
    by blast
qed

text \<open>
  In the earlier worker a transport error of siteverify leaves \<^verbatim>\<open>handleClick\<close> as an
  exception; in this one it is a 403.
\<close>

lemma transport_error_is_403:
  assumes "req_body req = JObject cnt token" "valid_count cnt" "\<not> isLocal (client_ip req)"
    and "\<not> recentVerify (at_recent clk) (hashIP pf (client_ip req)) d"
    and "usable_token token = Some tk"
    and "siteverify pf (secret, tk, client_ip req) = TransportError"
  shows "handleClick pf secret clk d req = (d, Response 403 (ErrorJSON ''bot detected''))"
  using assms by (simp add: handleClick_def turnstile_gate_def verifyTurnstile_def)

lemma transport_error_uncaught_plan:
  assumes "req_body req = JObject cnt token" "valid_count cnt" "\<not> isLocal (client_ip req)"
    and "usable_token token = Some tk"
    and "siteverify pf (secret, tk, client_ip req) = TransportError"
  shows "handleClick_plan pf secret at_check at_batch d req = (d, Uncaught)"
  using assms by (simp add: handleClick_plan_def verifyTurnstile_plan_def)

section \<open>Requests with no address\<close>

lemma gate_of_local:
  "isLocal ip \<Longrightarrow> turnstile_gate pf secret clk token ip d = Inr d"
  by (simp add: turnstile_gate_def)

lemma client_ip_missing: "cf_connecting_ip req = None \<Longrightarrow> client_ip req = ''unknown''"
  by (simp add: client_ip_def)

text \<open>
  C10. A \<^verbatim>\<open>/click\<close> request with no \<^verbatim>\<open>CF-Connecting-IP\<close> header is never answered 403,
  and with a valid count its outcome is that of the conditional insert under the digest
  of the string "unknown" alone: neither the token, nor the secret, nor siteverify, nor the
  verification table has a part in it, and that table is left as it was.
\<close>

theorem missing_address_is_exempt:
  assumes noip: "cf_connecting_ip req = None"
  shows "status (snd (handleClick pf secret clk d req)) \<noteq> Some 403
       \<and> turnstile_verified (fst (handleClick pf secret clk d req)) = turnstile_verified d
       \<and> (\<forall>cnt token. req_body req = JObject cnt token \<and> valid_count cnt \<longrightarrow>
            handleClick pf secret clk d req =
              (if window_sum (click_batches d) (hashIP pf ''unknown'') (at_insert clk)
                    + count_value cnt \<le> 200
               then (d\<lparr>click_batches := click_batches d @
                         [\<lparr>b_count = count_value cnt, b_ip_hash = hashIP pf ''unknown'',
                           b_country = client_country req, b_created_at = at_insert clk\<rparr>],
                       counter_total := sum_as_double (counter_total d) (count_value cnt)\<rparr>,
                     Response 200
                       (OkJSON (to_double (sum_as_double (counter_total d) (count_value cnt)))))
               else (d, Response 429 (ErrorJSON ''rate limited''))))"
proof -
  have ip: "client_ip req = ''unknown''"
    using noip by (rule client_ip_missing)
  have gate: "\<And>token. turnstile_gate pf secret clk token ''unknown'' d = Inr d"
    by (rule gate_of_local) (simp add: isLocal_def)
  show ?thesis
    by (cases "req_body req")
       (simp_all add: handleClick_def ip gate insert_click_batch_def increment_counter_def)
qed

theorem missing_address_is_exempt_witness:
  "cf_connecting_ip (click_request (JNumber 7) JUndefined None) = None
   \<and> handleClick (platform_with (Reply False)) ''secret'' (at_second 100) empty_db
       (click_request (JNumber 7) JUndefined None)
     = (\<lparr>counter_total = 7,
          click_batches = [\<lparr>b_count = 7, b_ip_hash = ''sha256:unknown'',
                            b_country = ''unknown'', b_created_at = 100\<rparr>],
          turnstile_verified = Map.empty\<rparr>,
        Response 200 (OkJSON 7))"
proof -
  let ?pf = "platform_with (Reply False)"
  let ?req = "click_request (JNumber 7) JUndefined None"
  have h: "cf_connecting_ip ?req = None"
    by (simp add: click_request_def)
  have b: "req_body ?req = JObject (JNumber 7) JUndefined \<and> valid_count (JNumber 7)"
    by (simp add: click_request_def)
  have "handleClick ?pf ''secret'' (at_second 100) empty_db ?req =
          (if window_sum (click_batches empty_db) (hashIP ?pf ''unknown'')
                (at_insert (at_second 100)) + count_value (JNumber 7) \<le> 200
           then (empty_db\<lparr>click_batches := click_batches empty_db @
                     [\<lparr>b_count = count_value (JNumber 7), b_ip_hash = hashIP ?pf ''unknown'',
                       b_country = client_country ?req,
                       b_created_at = at_insert (at_second 100)\<rparr>],
                   counter_total :=
                     sum_as_double (counter_total empty_db) (count_value (JNumber 7))\<rparr>,
                 Response 200 (OkJSON (to_double
                   (sum_as_double (counter_total empty_db) (count_value (JNumber 7))))))
           else (empty_db, Response 429 (ErrorJSON ''rate limited'')))"
    using missing_address_is_exempt [OF h, of ?pf "''secret''" "at_second 100" empty_db] b
    by blast
  then show ?thesis
    using h
    by (simp add: window_sum_def empty_db_def platform_with_def tagged_hash_def
          at_second_def client_country_def click_request_def sum_as_double_exact
          to_double_exact)
qed

text \<open>The same holds of the earlier worker, where the limit is ten batches.\<close>

lemma missing_address_is_exempt_plan:
  assumes "cf_connecting_ip req = None"
  shows "status (snd (handleClick_plan pf secret at_check at_batch d req)) \<noteq> Some 403"
  using assms
  by (auto simp: handleClick_plan_def client_ip_def isLocal_def insert_and_increment_plan_def
           split: body.splits)

section \<open>The animated count\<close>

text \<open>
  C6. In every state of the hook, \<^verbatim>\<open>setTarget\<close> with a target that is not above the
  current one returns the state as it is: the displayed value, the target, the requested
  frame and the anchors of the animation are unchanged.
\<close>

theorem setTarget_not_above_is_noop:
  "newTarget \<le> targetRef s \<Longrightarrow> setTarget now newTarget s = s"
  by (simp add: setTarget_def)

theorem setTarget_not_above_is_noop_witness:
  "(500::int) \<le> targetRef (setTarget 0 600 anim_init)
   \<and> setTarget 1000 500 (setTarget 0 600 anim_init) = setTarget 0 600 anim_init"
proof -
  have h: "(500::int) \<le> targetRef (setTarget 0 600 anim_init)"
    by (simp add: setTarget_def anim_init_def)
  show ?thesis
    using setTarget_not_above_is_noop [OF h, of 1000] h by blast
qed

text \<open>The same in the two other copies of the hook.\<close>

lemma setTarget_rate_not_above_is_noop:
  "newTarget \<le> r_targetRef s \<Longrightarrow> setTarget_rate now newTarget s = s"
  by (simp add: setTarget_rate_def)

lemma setTarget_scatter_not_above_is_noop:
  "newTarget \<le> s_targetRef s \<Longrightarrow> setTarget_scatter duration rnd newTarget s = s"
  by (simp add: setTarget_scatter_def)

subsection \<open>The displayed value stays below the target and never goes back\<close>

lemma anim_inv_init: "anim_inv anim_init"
  by (simp add: anim_inv_def anim_init_def)

lemma setTarget_inv:
  "anim_inv s \<Longrightarrow>
     anim_inv (setTarget now newTarget s) \<and>
     displayRef s \<le> displayRef (setTarget now newTarget s) \<and>
     shown_le (displayCount s) (displayCount (setTarget now newTarget s))"
  by (cases "displayCount s")
     (auto simp: anim_inv_def setTarget_def startAnimation_def Let_def)

lemma addImmediate_inv:
  "anim_inv s \<Longrightarrow> 0 \<le> n \<Longrightarrow>
     anim_inv (addImmediate n s) \<and>
     displayRef s \<le> displayRef (addImmediate n s) \<and>
     shown_le (displayCount s) (displayCount (addImmediate n s))"
  by (cases "displayCount s") (auto simp: anim_inv_def addImmediate_def)

lemma tick_inv:
  "anim_inv s \<Longrightarrow>
     anim_inv (tick duration now jitter s) \<and>
     displayRef s \<le> displayRef (tick duration now jitter s) \<and>
     shown_le (displayCount s) (displayCount (tick duration now jitter s))"
  by (cases "displayCount s") (auto simp: anim_inv_def tick_def Let_def)

lemma anim_step_inv:
  assumes "anim_inv s" and "local_adds_nonneg (e # es)"
  shows "anim_inv (anim_step duration s e)
       \<and> displayRef s \<le> displayRef (anim_step duration s e)
       \<and> shown_le (displayCount s) (displayCount (anim_step duration s e))"
proof (cases e)
  case (SetTarget now newTarget)
  then show ?thesis
    using setTarget_inv [OF assms(1)] by simp
next
  case (AddImmediate n)
  then show ?thesis
    using addImmediate_inv [OF assms(1)] assms(2) by simp
next
  case (Frame now jitter)
  then show ?thesis
    using tick_inv [OF assms(1)] by simp
qed

lemma local_adds_nonneg_tail: "local_adds_nonneg (e # es) \<Longrightarrow> local_adds_nonneg es"
  by (cases e) simp_all

lemma inv_shown_le_target: "anim_inv s \<Longrightarrow> shown_le (displayCount s) (Some (targetRef s))"
  by (cases "displayCount s") (auto simp: anim_inv_def)

lemma observations_from_inv:
  "anim_inv s \<Longrightarrow> local_adds_nonneg es \<Longrightarrow>
     never_above_target (observations duration s es) \<and>
     never_decreasing (observations duration s es)"
proof (induction es arbitrary: s)
  case Nil
  then show ?case
    by (simp add: inv_shown_le_target)
next
  case (Cons e es)
  have step: "anim_inv (anim_step duration s e)"
    "shown_le (displayCount s) (displayCount (anim_step duration s e))"
    using anim_step_inv [OF Cons.prems] by simp_all
  have rest: "never_above_target (observations duration (anim_step duration s e) es)"
    "never_decreasing (observations duration (anim_step duration s e) es)"
    using Cons.IH [OF step(1) local_adds_nonneg_tail [OF Cons.prems(2)]] by simp_all
  show ?case
    using Cons.prems(1) step(2) rest
    by (cases es) (simp_all add: inv_shown_le_target)
qed

text \<open>
  C4. For every sequence of \<^verbatim>\<open>setTarget\<close> calls, \<^verbatim>\<open>addImmediate(n)\<close> calls with n \<ge> 0
  and frames on a fresh hook, at every observation point the displayed value is at most the
  target, and from one observation to the next the displayed value does not decrease.
\<close>

theorem displayed_never_above_target_nor_back:
  assumes "0 < duration" and "local_adds_nonneg es"
  shows "never_above_target (observations duration anim_init es)
       \<and> never_decreasing (observations duration anim_init es)"
  using observations_from_inv [OF anim_inv_init assms(2)] by simp

theorem displayed_never_above_target_nor_back_witness:
  "(0::rat) < 2000
   \<and> local_adds_nonneg [SetTarget 0 100, AddImmediate 1, SetTarget 10 601, Frame 1010 True]
   \<and> never_above_target (observations 2000 anim_init
        [SetTarget 0 100, AddImmediate 1, SetTarget 10 601, Frame 1010 True])
   \<and> never_decreasing (observations 2000 anim_init
        [SetTarget 0 100, AddImmediate 1, SetTarget 10 601, Frame 1010 True])
   \<and> map displayCount (observations 2000 anim_init
        [SetTarget 0 100, AddImmediate 1, SetTarget 10 601, Frame 1010 True])
       = [None, Some 100, Some 101, Some 101, Some 352]"
proof -
  have h1: "(0::rat) < 2000"
    by simp
  have h2: "local_adds_nonneg [SetTarget 0 100, AddImmediate 1, SetTarget 10 601, Frame 1010 True]"
    by simp
  have v: "map displayCount (observations 2000 anim_init
             [SetTarget 0 100, AddImmediate 1, SetTarget 10 601, Frame 1010 True])
           = [None, Some 100, Some 101, Some 101, Some 352]"
    by (simp add: anim_init_def setTarget_def addImmediate_def startAnimation_def tick_def
          js_round_def Let_def floor_numeral_quotient)
  show ?thesis
    using displayed_never_above_target_nor_back [OF h1 h2] h1 h2 v by blast
qed

text \<open>
  The same two properties in the two other copies of the hook. In the copy with the frame
  loop, each call and each frame keeps the displayed value at most the target and does not
  lower it.
\<close>

lemma rate_inv_init: "rate_inv anim_rate_init"
  by (simp add: rate_inv_def anim_rate_init_def)

lemma setTarget_rate_inv:
  "rate_inv s \<Longrightarrow>
     rate_inv (setTarget_rate now newTarget s) \<and>
     r_displayCount s \<le> r_displayCount (setTarget_rate now newTarget s)"
  by (auto simp: rate_inv_def setTarget_rate_def startAnimation_rate_def Let_def)

lemma addImmediate_rate_inv:
  "rate_inv s \<Longrightarrow> 0 \<le> n \<Longrightarrow>
     rate_inv (addImmediate_rate n s) \<and>
     r_displayCount s \<le> r_displayCount (addImmediate_rate n s)"
  by (auto simp: rate_inv_def addImmediate_rate_def)

lemma tick_rate_inv:
  "rate_inv s \<Longrightarrow>
     rate_inv (tick_rate duration now rnd s) \<and>
     r_displayCount s \<le> r_displayCount (tick_rate duration now rnd s)"
  by (auto simp: rate_inv_def tick_rate_def Let_def)

lemma scatter_inv_init: "scatter_inv anim_scatter_init"
  by (simp add: scatter_inv_def anim_scatter_init_def)

lemma batch_timers_capped:
  "x \<in> set (batch_timers duration animationDelta) \<Longrightarrow> \<exists>inc. 0 < inc \<and> snd x = AddCapped inc"
  by (auto simp: batch_timers_def)

lemma single_timers_ones:
  "x \<in> set (single_timers duration rnd animationDelta) \<Longrightarrow> snd x = AddOne"
  by (auto simp: single_timers_def)

lemma single_timers_length:
  "length (single_timers duration rnd animationDelta) = nat animationDelta"
  by (simp add: single_timers_def)

lemma setTarget_scatter_inv:
  assumes "scatter_inv s"
  shows "scatter_inv (setTarget_scatter duration rnd newTarget s)
       \<and> s_displayCount s \<le> s_displayCount (setTarget_scatter duration rnd newTarget s)"
proof (cases "newTarget \<le> s_targetRef s")
  case True
  then show ?thesis
    using assms by (simp add: setTarget_scatter_def)
next
  case above: False
  show ?thesis
  proof (cases "s_initializedRef s")
    case False
    then show ?thesis
      using assms above by (simp add: setTarget_scatter_def scatter_inv_def)
  next
    case True
    define delta where "delta = newTarget - s_displayRef s"
    have pos: "0 < delta"
      using assms above by (simp add: delta_def scatter_inv_def)
    then have imm: "min delta 1 = 1"
      by simp
    have shown: "min (s_displayRef s + 1) newTarget = s_displayRef s + 1"
      using pos by (simp add: delta_def)
    consider "delta - 1 \<le> 0" | "500 < delta - 1" | "0 < delta - 1" "delta - 1 \<le> 500"
      by linarith
    then show ?thesis
    proof cases
      case 1
      then show ?thesis
        using assms above True pos imm shown
        by (simp add: setTarget_scatter_def scatter_inv_def delta_def [symmetric] Let_def)
    next
      case 2
      then have "\<not> delta - 1 \<le> 0"
        by simp
      then show ?thesis
        using assms above True pos imm shown 2 batch_timers_capped
        by (simp add: setTarget_scatter_def scatter_inv_def delta_def [symmetric] Let_def)
    next
      case 3
      have "s_displayRef s + 1 + int (nat (delta - 1)) \<le> newTarget"
        using 3 by (simp add: delta_def)
      then show ?thesis
        using assms above True pos imm shown 3 single_timers_ones single_timers_length
        by (simp add: setTarget_scatter_def scatter_inv_def delta_def [symmetric] Let_def)
    qed
  qed
qed

lemma addImmediate_scatter_inv:
  "scatter_inv s \<Longrightarrow> 0 \<le> n \<Longrightarrow>
     scatter_inv (addImmediate_scatter n s) \<and>
     s_displayCount s \<le> s_displayCount (addImmediate_scatter n s)"
  by (auto simp: scatter_inv_def addImmediate_scatter_def)

lemma set_without: "set (take i xs @ drop (Suc i) xs) \<subseteq> set xs"
  using set_take_subset [of i xs] set_drop_subset [of "Suc i" xs] by auto

lemma length_without: "i < length xs \<Longrightarrow> length (take i xs @ drop (Suc i) xs) = length xs - 1"
  by simp

lemma fire_inv:
  assumes "scatter_inv s"
  shows "scatter_inv (fire i s) \<and> s_displayCount s \<le> s_displayCount (fire i s)"
proof (cases "i < length (s_timers s)")
  case False
  then show ?thesis
    using assms by (simp add: fire_def)
next
  case True
  let ?rest = "take i (s_timers s) @ drop (Suc i) (s_timers s)"
  have mem: "s_timers s ! i \<in> set (s_timers s)"
    using True by simp
  have sub: "set ?rest \<subseteq> set (s_timers s)"
    by (rule set_without)
  have len: "int (length ?rest) = int (length (s_timers s)) - 1"
    using True by (simp add: of_nat_diff)
  show ?thesis
  proof (cases "snd (s_timers s ! i)")
    case AddOne
    then have ones: "\<forall>x \<in> set (s_timers s). snd x = AddOne"
      and room: "s_displayRef s + int (length (s_timers s)) \<le> s_targetRef s"
      using assms mem by (auto simp: scatter_inv_def)
    have "\<forall>x \<in> set ?rest. snd x = AddOne"
      using ones sub by blast
    moreover have "s_displayRef s + 1 + int (length ?rest) \<le> s_targetRef s"
      using room len by simp
    ultimately show ?thesis
      using assms True AddOne by (simp add: fire_def scatter_inv_def)
  next
    case (AddCapped inc)
    then have capped: "\<forall>x \<in> set (s_timers s). \<exists>inc. 0 < inc \<and> snd x = AddCapped inc"
      using assms mem by (auto simp: scatter_inv_def)
    then have "0 < inc"
      using mem AddCapped by auto
    moreover have "\<forall>x \<in> set ?rest. \<exists>inc. 0 < inc \<and> snd x = AddCapped inc"
      using capped sub by blast
    ultimately show ?thesis
      using assms True AddCapped by (simp add: fire_def scatter_inv_def)
  qed
qed

lemma scatter_step_inv:
  assumes "scatter_inv s" and "scatter_adds_nonneg (e # es)"
  shows "scatter_inv (scatter_step duration s e)
       \<and> s_displayCount s \<le> s_displayCount (scatter_step duration s e)"
proof (cases e)
  case (SetTargetS rnd newTarget)
  then show ?thesis
    using setTarget_scatter_inv [OF assms(1)] by simp
next
  case (AddImmediateS n)
  then show ?thesis
    using addImmediate_scatter_inv [OF assms(1)] assms(2) by simp
next
  case (Fire i)
  then show ?thesis
    using fire_inv [OF assms(1)] by simp
qed

lemma scatter_adds_nonneg_tail: "scatter_adds_nonneg (e # es) \<Longrightarrow> scatter_adds_nonneg es"
  by (cases e) simp_all

lemma scatter_observations_head: "hd (scatter_observations duration s es) = s"
  by (cases es) simp_all

lemma scatter_observations_ordered:
  "scatter_inv s \<Longrightarrow> scatter_adds_nonneg es \<Longrightarrow>
     (\<forall>ob \<in> set (scatter_observations duration s es). s_displayCount ob \<le> s_targetRef ob) \<and>
     sorted (map s_displayCount (scatter_observations duration s es))"
proof (induction es arbitrary: s)
  case Nil
  then show ?case
    by (simp add: scatter_inv_def)
next
  case (Cons e es)
  let ?s1 = "scatter_step duration s e"
  have step: "scatter_inv ?s1" "s_displayCount s \<le> s_displayCount ?s1"
    using scatter_step_inv [OF Cons.prems] by simp_all
  have rest: "\<forall>ob \<in> set (scatter_observations duration ?s1 es). s_displayCount ob \<le> s_targetRef ob"
    "sorted (map s_displayCount (scatter_observations duration ?s1 es))"
    using Cons.IH [OF step(1) scatter_adds_nonneg_tail [OF Cons.prems(2)]] by simp_all
  have "scatter_observations duration ?s1 es \<noteq> []"
    by (cases es) simp_all
  then have "\<forall>x \<in> set (map s_displayCount (scatter_observations duration ?s1 es)).
               s_displayCount ?s1 \<le> x"
    using rest(2) scatter_observations_head [of duration ?s1 es]
    by (cases "scatter_observations duration ?s1 es") auto
  then show ?case
    using Cons.prems(1) step(2) rest by (auto simp: scatter_inv_def)
qed

subsection \<open>Reaching the target\<close>

lemma setTarget_animating:
  "anim_inv s \<Longrightarrow> initializedRef s \<Longrightarrow> targetRef s < t \<Longrightarrow>
     animating start (setTarget start t s) \<and> targetRef (setTarget start t s) = t"
  by (auto simp: animating_def anim_inv_def setTarget_def startAnimation_def Let_def)

lemma addImmediate_animating:
  "animating start s \<Longrightarrow>
     animating start (addImmediate n s) \<and> targetRef (addImmediate n s) = targetRef s + n"
  by (auto simp: animating_def anim_inv_def addImmediate_def)

lemma tick_animating:
  "animating start s \<Longrightarrow> now < start + duration \<Longrightarrow>
     animating start (tick duration now jitter s) \<and>
     targetRef (tick duration now jitter s) = targetRef s"
  by (auto simp: animating_def anim_inv_def tick_def Let_def)

lemma after_events_animating:
  "animating start s \<Longrightarrow> no_newer_target duration s es \<Longrightarrow>
     frames_before (start + duration) es \<Longrightarrow>
     animating start (after_events duration s es) \<and>
     targetRef (after_events duration s es) = targetRef s + adds_total es"
proof (induction es arbitrary: s)
  case Nil
  then show ?case by simp
next
  case (Cons e es)
  show ?case
  proof (cases e)
    case (SetTarget now newTarget)
    then have "setTarget now newTarget s = s"
      using Cons.prems(2) by (simp add: setTarget_def)
    then show ?thesis
      using SetTarget Cons.prems Cons.IH [of s] by simp
  next
    case (AddImmediate n)
    then show ?thesis
      using Cons.prems Cons.IH [of "addImmediate n s"] addImmediate_animating [of start s n]
      by simp
  next
    case (Frame now jitter)
    then show ?thesis
      using Cons.prems Cons.IH [of "tick duration now jitter s"]
        tick_animating [of start s now duration jitter]
      by simp
  qed
qed

lemma tick_past_deadline:
  "animating start s \<Longrightarrow> start + duration \<le> now \<Longrightarrow>
     displayCount (tick duration now jitter s) = Some (targetRef s) \<and>
     targetRef (tick duration now jitter s) = targetRef s \<and>
     \<not> rafRef (tick duration now jitter s)"
  by (auto simp: animating_def anim_inv_def tick_def Let_def)

text \<open>
  C5. After \<^verbatim>\<open>setTarget(t)\<close> on an initialized hook with t above the current target,
  with the frames running and no newer target, the displayed value is to reach t no later
  than the duration after the call; the comment above the hook promises that the display
  reaches the target before the next poll, and App.tsx passes the poll interval as the
  duration. The code does not keep this. The target goes from 100 to 600 at time 0 with a
  duration of 2000 ms; the frame at 1992.1875 ms shows 598 and requests the next frame,
  which comes at 2007.8125 ms and shows 600: at 2000 ms the displayed value is 598.
\<close>

theorem below_target_at_the_bound:
  "displayCount (tick 2000 (31875 / 16) False (setTarget 0 600 (setTarget 0 100 anim_init)))
     = Some 598
   \<and> rafRef (tick 2000 (31875 / 16) False (setTarget 0 600 (setTarget 0 100 anim_init)))
   \<and> displayCount (tick 2000 (32125 / 16) False
        (tick 2000 (31875 / 16) False (setTarget 0 600 (setTarget 0 100 anim_init))))
     = Some 600"
  by (simp add: anim_init_def setTarget_def startAnimation_def tick_def js_round_def Let_def
        floor_numeral_quotient)

text \<open>
  What \<^verbatim>\<open>tick\<close> does: after \<^verbatim>\<open>setTarget(t)\<close> at time \<open>start\<close> on an initialized hook
  with t above the current target, as long as no newer target arrives and the frames come
  before \<open>start + duration\<close>, a frame stays requested; a frame whose timestamp is at
  least \<open>start + duration\<close> shows the target (t, plus the local additions made since
  the call) and ends the animation.
\<close>

lemma target_shown_at_first_frame_past_bound:
  assumes "0 < duration"
    and "anim_inv s" and "initializedRef s" and "targetRef s < t"
    and "no_newer_target duration (setTarget start t s) es"
    and "frames_before (start + duration) es"
    and "start + duration \<le> now"
  shows "rafRef (after_events duration (setTarget start t s) es)
       \<and> displayCount (tick duration now jitter (after_events duration (setTarget start t s) es))
           = Some (t + adds_total es)
       \<and> targetRef (tick duration now jitter (after_events duration (setTarget start t s) es))
           = t + adds_total es
       \<and> \<not> rafRef (tick duration now jitter (after_events duration (setTarget start t s) es))"
proof -
  let ?s1 = "setTarget start t s"
  let ?s2 = "after_events duration ?s1 es"
  have a1: "animating start ?s1" and t1: "targetRef ?s1 = t"
    using setTarget_animating [OF assms(2,3,4)] by simp_all
  have a2: "animating start ?s2" and t2: "targetRef ?s2 = t + adds_total es"
    using after_events_animating [OF a1 assms(5,6)] t1 by simp_all
  show ?thesis
    using tick_past_deadline [OF a2 assms(7), of jitter] a2 t2 by (simp add: animating_def)
qed

lemma target_shown_at_first_frame_past_bound_example:
  "displayCount (tick 2000 (32125 / 16) True
        (after_events 2000 (setTarget 0 600 (setTarget 0 100 anim_init))
           [Frame (31875 / 16) False, SetTarget 1995 600, AddImmediate 1]))
     = Some 601"
proof -
  let ?s = "setTarget 0 100 anim_init"
  let ?es = "[Frame (31875 / 16) False, SetTarget 1995 600, AddImmediate 1]"
  have h1: "(0::rat) < 2000"
    by simp
  have h2: "anim_inv ?s" and h3: "initializedRef ?s" and h4: "targetRef ?s < 600"
    by (simp_all add: anim_inv_def setTarget_def anim_init_def)
  have h5: "no_newer_target 2000 (setTarget 0 600 ?s) ?es"
    by (simp add: anim_init_def setTarget_def startAnimation_def tick_def js_round_def Let_def
          floor_numeral_quotient)
  have h6: "frames_before (0 + 2000) ?es"
    by simp
  have h7: "(0::rat) + 2000 \<le> 32125 / 16"
    by simp
  have sum: "adds_total ?es = 1"
    by simp
  show ?thesis
    using target_shown_at_first_frame_past_bound [OF h1 h2 h3 h4 h5 h6 h7, of True] sum
    by simp
qed

text \<open>
  The frame loop of unnamed/part_000 has no such bound: with a gap of one and a duration
  of 2000 ms, frames whose random number is at least 1/20 leave the displayed value where
  it is, however many they are and whenever they come.
\<close>

lemma tick_rate_stalls:
  assumes gap: "r_targetRef s - r_displayRef s = 1" and rnd: "1 / 20 \<le> rnd"
  shows "r_displayRef (tick_rate 2000 now rnd s) = r_displayRef s
       \<and> r_targetRef (tick_rate 2000 now rnd s) = r_targetRef s"
proof -
  define dt where "dt = min (now - r_lastFrameRef s) 100"
  have le: "dt / 2000 \<le> 1 / 20"
    by (simp add: dt_def)
  have fl: "\<lfloor>dt / 2000\<rfloor> \<le> 0"
    using le by (simp add: floor_le_iff)
  have inc: "\<lfloor>dt / 2000\<rfloor> + (if rnd < dt / 2000 - of_int \<lfloor>dt / 2000\<rfloor> then 1 else 0) \<le> 0"
  proof (cases "\<lfloor>dt / 2000\<rfloor> = 0")
    case True
    then show ?thesis
      using le rnd by simp
  next
    case False
    then have "\<lfloor>dt / 2000\<rfloor> \<le> - 1"
      using fl by linarith
    moreover have "(if rnd < dt / 2000 - of_int \<lfloor>dt / 2000\<rfloor> then 1 else 0) \<le> (1::int)"
      by simp
    ultimately show ?thesis
      by linarith
  qed
  show ?thesis
    using gap inc unfolding tick_rate_def Let_def dt_def [symmetric]
    by (simp add: not_less)
qed

lemma frames_rate_stall:
  assumes "r_targetRef s - r_displayRef s = 1" and "\<forall>f \<in> set fs. 1 / 20 \<le> snd f"
  shows "r_displayRef (frames_rate 2000 fs s) = r_displayRef s"
  using assms
proof (induction fs arbitrary: s)
  case Nil
  then show ?case by simp
next
  case (Cons f fs)
  obtain now rnd where f: "f = (now, rnd)"
    by (cases f)
  have step: "r_displayRef (tick_rate 2000 now rnd s) = r_displayRef s"
    "r_targetRef (tick_rate 2000 now rnd s) = r_targetRef s"
    using tick_rate_stalls [of s rnd now] Cons.prems f by simp_all
  show ?case
    using Cons.IH [of "tick_rate 2000 now rnd s"] Cons.prems step f by simp
qed

section \<open>The batch senders\<close>

lemma sender_start_takes_batch:
  "sender_start now s = (s1, Some (batch, tk)) \<Longrightarrow>
     pendingRef s1 + batch = pendingRef s \<and> 1 \<le> batch \<and> batch \<le> 200 \<and> tk = turnstileTokenRef s"
  by (auto simp: sender_start_def Let_def split: if_splits)




text \<open>
  The \<^verbatim>\<open>catch\<close> block of the periodic sender does not write the deadline that the 429
  branch writes: it is after the rejected fetch what it was before.
\<close>

lemma rejected_fetch_keeps_deadline:
  "rateLimitedUntilRef (sender_settle now pnow batch FetchRejected s) = rateLimitedUntilRef s"
  by (simp add: sender_settle_def sender_catch_def)

text \<open>
  So a client with five clicks buffered and no deadline pending that sends them at
  1000 ms, and whose fetch is rejected at 1100 ms, sends them again at the next interval,
  at 2000 ms.
\<close>

lemma rejected_fetch_retried_at_next_interval:
  "rateLimitedUntilRef
     (sender_settle 1100 1100 5 FetchRejected (fst (sender_start 1000 (idle_client 5)))) = 0
   \<and> snd (sender_start 2000
       (sender_settle 1100 1100 5 FetchRejected (fst (sender_start 1000 (idle_client 5)))))
     = Some (5, ''tok'')"
  by (simp add: sender_settle_def sender_catch_def sender_start_def idle_client_def)

text \<open>\<^verbatim>\<open>flush\<close> sends during a cooldown, where the periodic sender does not.\<close>

lemma flush_ignores_cooldown:
  assumes "0 < pendingRef s" and "now < rateLimitedUntilRef s"
  shows "snd (sender_start now s) = None
       \<and> snd (flush s) = Some (min (pendingRef s) 200, turnstileTokenRef s)"
  using assms by (simp add: sender_start_def flush_def Let_def)


end
